theory Spec2Isabelle
  imports Main "HOL-Library.Word" "HOL-Library.AList" "HOL-Library.Multiset"
begin

section \<open>The audit verifier of the satellite (package audit)\<close>

text \<open>
  The verifier talks to collaborators that live outside the audited file: the metainfo
  store, the order service, the storage nodes, the erasure-code library and the hash
  function. One call of the verifier sees one answer from each of them; these answers
  are the fields of the record \<open>Verifier\<close> below, next to the verifier's own
  configuration. Nothing is assumed about the answers unless a theorem says so.

  Go values are modelled as follows. An \<open>int\<close>, \<open>int32\<close> or \<open>int64\<close> is an
  Isabelle \<open>int\<close> (no arithmetic of the verifier comes near the word size). A byte
  slice is a list of 8-bit words, \<open>nil\<close> and the empty slice being the same list.
  A \<open>storj.NodeID\<close> and a piece id are identifiers compared by equality only, taken
  as natural numbers with \<open>0\<close> for the zero value. A \<open>time.Time\<close> is the instant it
  denotes, with \<open>0\<close> for \<open>time.Time{}\<close>. A Go \<open>map\<close> is an association list with
  distinct keys; the order in which \<open>range\<close> visits it is chosen by the environment.
  A run-time panic (a negative length given to \<open>make\<close>, a slice bound out of range,
  a field read through a nil pointer, a division by zero) is the outcome \<open>Panic\<close>.
\<close>

type_synonym byte = "8 word"
type_synonym NodeID = nat
type_synonym PieceID = nat
type_synonym Time = int

datatype 'a outcome = Return 'a | Panic

subsection \<open>Errors\<close>

text \<open>
  Errors returned by the verifier. Each error class of the source that the code tests
  with \<open>Has\<close> is a constructor; \<open>AuditErr\<close> is \<open>Error.Wrap\<close> of the audit package,
  through which \<open>Has\<close> looks; \<open>OtherErr\<close> is a collaborator's error of none of the
  classes named here.
\<close>

datatype error =
    ObjectNotFoundErr string
  | KeyNotFoundErr string
  | ValueChangedErr string
  | NotEnoughSharesErr int int
  | SegmentDeletedErr string
  | SegmentModifiedErr string
  | AuditErr error
  | PiecesToRemoveMismatchErr int int
  | FailedToModifyErr int
  | OtherErr string

fun ErrObjectNotFound_Has :: "error \<Rightarrow> bool" where
  "ErrObjectNotFound_Has (ObjectNotFoundErr _) = True"
| "ErrObjectNotFound_Has (AuditErr e) = ErrObjectNotFound_Has e"
| "ErrObjectNotFound_Has _ = False"

fun ErrKeyNotFound_Has :: "error \<Rightarrow> bool" where
  "ErrKeyNotFound_Has (KeyNotFoundErr _) = True"
| "ErrKeyNotFound_Has (AuditErr e) = ErrKeyNotFound_Has e"
| "ErrKeyNotFound_Has _ = False"

fun ErrValueChanged_Has :: "error \<Rightarrow> bool" where
  "ErrValueChanged_Has (ValueChangedErr _) = True"
| "ErrValueChanged_Has (AuditErr e) = ErrValueChanged_Has e"
| "ErrValueChanged_Has _ = False"

fun ErrNotEnoughShares_Has :: "error \<Rightarrow> bool" where
  "ErrNotEnoughShares_Has (NotEnoughSharesErr _ _) = True"
| "ErrNotEnoughShares_Has (AuditErr e) = ErrNotEnoughShares_Has e"
| "ErrNotEnoughShares_Has _ = False"

fun ErrSegmentDeleted_Has :: "error \<Rightarrow> bool" where
  "ErrSegmentDeleted_Has (SegmentDeletedErr _) = True"
| "ErrSegmentDeleted_Has (AuditErr e) = ErrSegmentDeleted_Has e"
| "ErrSegmentDeleted_Has _ = False"

fun ErrSegmentModified_Has :: "error \<Rightarrow> bool" where
  "ErrSegmentModified_Has (SegmentModifiedErr _) = True"
| "ErrSegmentModified_Has (AuditErr e) = ErrSegmentModified_Has e"
| "ErrSegmentModified_Has _ = False"

text \<open>
  The status codes of \<open>rpcstatus\<close>, and the error of one share download. The verifier
  inspects such an error in three ways only: \<open>rpc.Error.Has\<close>,
  \<open>errs.Is(err, context.DeadlineExceeded)\<close> and \<open>rpcstatus.Code\<close>; the record holds
  what each of them answers.
\<close>

datatype StatusCode =
    StatusUnknown | StatusOK | StatusCanceled | StatusInvalidArgument
  | StatusDeadlineExceeded | StatusNotFound | StatusAlreadyExists
  | StatusPermissionDenied | StatusResourceExhausted | StatusFailedPrecondition
  | StatusAborted | StatusOutOfRange | StatusUnimplemented | StatusInternal
  | StatusUnavailable | StatusDataLoss | StatusUnauthenticated

record ShareError =
  rpc_Error_Has :: bool
  Is_context_DeadlineExceeded :: bool
  rpcstatus_Code :: StatusCode

definition IsRPC :: "ShareError \<Rightarrow> StatusCode \<Rightarrow> bool" where
  "IsRPC err code = (rpcstatus_Code err = code)"

subsection \<open>Data model\<close>

record Share =
  Error :: "ShareError option"
  PieceNum :: int
  NodeID :: NodeID
  Data :: "byte list"

definition zeroShare :: Share where
  "zeroShare = \<lparr>Error = None, PieceNum = 0, NodeID = 0, Data = []\<rparr>"

record infectious_Share =
  Number :: int
  ShareData :: "byte list"

datatype DataType = INLINE | REMOTE

record RedundancyScheme =
  MinReq :: int
  Total :: int
  RepairThreshold :: int
  SuccessThreshold :: int
  ErasureShareSize :: int

record RemotePiece =
  RemotePiece_PieceNum :: int
  NodeId :: NodeID

record RemoteSegment =
  Redundancy :: "RedundancyScheme option"
  RootPieceId :: PieceID
  RemotePieces :: "RemotePiece list"

record Pointer =
  Type :: DataType
  Remote :: "RemoteSegment option"
  SegmentSize :: int
  CreationDate :: Time
  ExpirationDate :: Time
  PieceHashesVerified :: bool

text \<open>The generated getters are nil-safe: on a nil receiver they return the zero value.\<close>

definition GetRemote :: "Pointer \<Rightarrow> RemoteSegment option" where
  "GetRemote pointer = Remote pointer"

definition GetRedundancy :: "RemoteSegment option \<Rightarrow> RedundancyScheme option" where
  "GetRedundancy remote = (case remote of None \<Rightarrow> None | Some r \<Rightarrow> Redundancy r)"

definition GetRemotePieces :: "RemoteSegment option \<Rightarrow> RemotePiece list" where
  "GetRemotePieces remote = (case remote of None \<Rightarrow> [] | Some r \<Rightarrow> RemotePieces r)"

definition GetMinReq :: "RedundancyScheme option \<Rightarrow> int" where
  "GetMinReq redundancy = (case redundancy of None \<Rightarrow> 0 | Some r \<Rightarrow> MinReq r)"

definition GetTotal :: "RedundancyScheme option \<Rightarrow> int" where
  "GetTotal redundancy = (case redundancy of None \<Rightarrow> 0 | Some r \<Rightarrow> Total r)"

definition GetErasureShareSize :: "RedundancyScheme option \<Rightarrow> int" where
  "GetErasureShareSize redundancy = (case redundancy of None \<Rightarrow> 0 | Some r \<Rightarrow> ErasureShareSize r)"

definition time_zero :: Time where
  "time_zero = 0"

record AddressedOrderLimit =
  StorageNodeId :: NodeID
  StorageNodeAddress :: string

record PendingAudit =
  PendingAudit_NodeID :: NodeID
  PieceID :: PieceID
  StripeIndex :: int
  ShareSize :: int
  ExpectedShareHash :: "byte list"
  Path :: string

record Report =
  Successes :: "NodeID list"
  Fails :: "NodeID list"
  Offlines :: "NodeID list"
  PendingAudits :: "PendingAudit list"
  Unknown :: "NodeID list"

definition emptyReport :: Report where
  "emptyReport = \<lparr>Successes = [], Fails = [], Offlines = [], PendingAudits = [], Unknown = []\<rparr>"

subsection \<open>The collaborators\<close>

text \<open>
  An erasure code as returned by \<open>infectious.NewFEC\<close>. \<open>Correct\<close> works in place on
  the slice it is given; the model returns the slice as it is afterwards. \<open>Rebuild\<close>
  hands shares to its callback one by one and may fail; the model returns the shares
  handed over, in order, and the error. \<open>EncodeSingle\<close> writes into the output buffer
  it is given; the model returns the buffer as it is afterwards.
\<close>

record FEC =
  Required :: int
  Correct :: "infectious_Share list \<Rightarrow> error + infectious_Share list"
  Rebuild :: "infectious_Share list \<Rightarrow> infectious_Share list \<times> error option"
  EncodeSingle :: "byte list \<Rightarrow> byte list \<Rightarrow> int \<Rightarrow> error + byte list"

text \<open>What one storage node does during one \<open>GetShare\<close>.\<close>

record NodeResponse =
  dialError :: "ShareError option"
  downloadError :: "ShareError option"
  readFull :: "ShareError + byte list"
  downloaderClose :: "ShareError option"

record Verifier =
  UsedToVerifyPieceHashes :: bool
  metainfo_GetWithBytes :: "error + (byte list \<times> Pointer)"
  time_Now :: Time
  metainfo_Delete :: "error option"
  NewRedundancyStrategyFromProto :: "RedundancyScheme option \<Rightarrow> error + int"
  rnd_Int63n :: "int \<Rightarrow> int"
  ParseSegmentKey :: "error option"
  orders_CreateAuditOrderLimits :: "error + AddressedOrderLimit option list"
  node :: "nat \<Rightarrow> NodeResponse"
  Error_Wrap_share :: "ShareError \<Rightarrow> ShareError"
  errs_Combine_share :: "ShareError \<Rightarrow> ShareError \<Rightarrow> ShareError"
  channelOrder :: "nat list \<Rightarrow> nat list"
  metainfo_GetWithBytes_again :: "error + (byte list \<times> Pointer)"
  rangeShares :: "nat \<Rightarrow> (int \<times> Share) list \<Rightarrow> (int \<times> Share) list"
  rangeContained :: "nat \<Rightarrow> (int \<times> NodeID) list \<Rightarrow> (int \<times> NodeID) list"
  infectious_NewFEC :: "int \<Rightarrow> int \<Rightarrow> error + FEC"
  SHA256Hash :: "byte list \<Rightarrow> byte list"

text \<open>
  The environment is fair when every parallel download delivers its one result through
  the channel (in any order) and every \<open>range\<close> over a map visits each entry once (in
  any order). The sites of \<open>rangeShares\<close> are: 0 the classification loop of
  \<open>Verify\<close>, 1 \<open>makeCopies\<close>, 2 \<open>getSuccessNodes\<close>; those of \<open>rangeContained\<close>:
  0 \<open>getSuccessNodes\<close>, 1 \<open>createPendingAudits\<close>.
\<close>

definition fair :: "Verifier \<Rightarrow> bool" where
  "fair v \<longleftrightarrow>
     (\<forall>is. mset (channelOrder v is) = mset is) \<and>
     (\<forall>site m. mset (rangeShares v site m) = mset m) \<and>
     (\<forall>site m. mset (rangeContained v site m) = mset m)"

subsection \<open>GetShare and DownloadShares\<close>

text \<open>
  \<open>GetShare\<close> has the named results \<open>(share, err)\<close>; the deferred function combines
  the error of closing the downloader into \<open>err\<close> once the download has been opened.
\<close>

definition errs_Combine :: "Verifier \<Rightarrow> ShareError option \<Rightarrow> ShareError option \<Rightarrow> ShareError option" where
  "errs_Combine v e1 e2 =
     (case e1 of
        None \<Rightarrow> e2
      | Some a \<Rightarrow> (case e2 of None \<Rightarrow> Some a | Some b \<Rightarrow> Some (errs_Combine_share v a b)))"

definition GetShare :: "Verifier \<Rightarrow> NodeResponse \<Rightarrow> AddressedOrderLimit \<Rightarrow> int \<Rightarrow> int \<Rightarrow> int
    \<Rightarrow> (Share \<times> ShareError option) outcome" where
  "GetShare v resp limit stripeIndex shareSize pieceNum =
     (case dialError resp of
        Some err \<Rightarrow> Return (zeroShare, Some (Error_Wrap_share v err))
      | None \<Rightarrow>
         (case downloadError resp of
            Some err \<Rightarrow> Return (zeroShare, Some err)
          | None \<Rightarrow>
             if shareSize < 0 then Panic
             else
               (case readFull resp of
                  Inl err \<Rightarrow> Return (zeroShare, errs_Combine v (Some err) (downloaderClose resp))
                | Inr buf \<Rightarrow>
                    Return (\<lparr>Error = None, PieceNum = pieceNum, NodeID = StorageNodeId limit, Data = buf\<rparr>,
                            errs_Combine v None (downloaderClose resp)))))"

text \<open>The body of the goroutine started for the limit at index \<open>i\<close>.\<close>

definition downloadTask :: "Verifier \<Rightarrow> int \<Rightarrow> int \<Rightarrow> nat \<Rightarrow> AddressedOrderLimit \<Rightarrow> Share outcome" where
  "downloadTask v stripeIndex shareSize i limit =
     (case GetShare v (node v i) limit stripeIndex shareSize (int i) of
        Panic \<Rightarrow> Panic
      | Return (share, err) \<Rightarrow>
         (case err of
            None \<Rightarrow> Return share
          | Some e \<Rightarrow> Return \<lparr>Error = Some e, PieceNum = int i, NodeID = StorageNodeId limit, Data = []\<rparr>))"

text \<open>
  What arrives on the channel for index \<open>i\<close>: nil for a nil limit, the task's share
  otherwise. The collecting loop stores every non-nil share under its piece number. It
  receives in the order \<open>channelOrder\<close> gives to the indices of the slice; for a
  fair environment these are the indices themselves, each once, so that \<open>limits ! i\<close>
  is always within the slice. A panic in a task ends the program.
\<close>

fun collectShares :: "Verifier \<Rightarrow> AddressedOrderLimit option list \<Rightarrow> int \<Rightarrow> int \<Rightarrow> nat list
    \<Rightarrow> (int \<times> Share) list \<Rightarrow> (int \<times> Share) list outcome" where
  "collectShares v limits stripeIndex shareSize [] shares = Return shares"
| "collectShares v limits stripeIndex shareSize (i # is) shares =
     (case limits ! i of
        None \<Rightarrow> collectShares v limits stripeIndex shareSize is shares
      | Some limit \<Rightarrow>
         (case downloadTask v stripeIndex shareSize i limit of
            Panic \<Rightarrow> Panic
          | Return share \<Rightarrow>
              collectShares v limits stripeIndex shareSize is (AList.update (PieceNum share) share shares)))"

definition DownloadShares :: "Verifier \<Rightarrow> AddressedOrderLimit option list \<Rightarrow> int \<Rightarrow> int
    \<Rightarrow> ((int \<times> Share) list \<times> error option) outcome" where
  "DownloadShares v limits stripeIndex shareSize =
     (case collectShares v limits stripeIndex shareSize (channelOrder v [0..<length limits]) [] of
        Panic \<Rightarrow> Panic
      | Return shares \<Rightarrow> Return (shares, None))"

subsection \<open>Helpers of Verify\<close>

text \<open>Reading a Go map at a key it does not hold gives the zero value.\<close>

definition lookupShare :: "(int \<times> Share) list \<Rightarrow> int \<Rightarrow> Share" where
  "lookupShare shares pieceNum = (case map_of shares pieceNum of None \<Rightarrow> zeroShare | Some share \<Rightarrow> share)"

text \<open>
  \<open>checkIfSegmentAltered\<close> fetches the pointer again. (The testing hook it may call
  first acts on the store only; its effect is part of the answer of the second fetch.)
\<close>

definition checkIfSegmentAltered :: "Verifier \<Rightarrow> string \<Rightarrow> Pointer option \<Rightarrow> byte list \<Rightarrow> error option" where
  "checkIfSegmentAltered v segmentKey oldPointer oldPointerBytes =
     (case metainfo_GetWithBytes_again v of
        Inl err \<Rightarrow>
          if ErrObjectNotFound_Has err then Some (SegmentDeletedErr segmentKey) else Some err
      | Inr (newPointerBytes, newPointer) \<Rightarrow>
          if (case oldPointer of None \<Rightarrow> False | Some old \<Rightarrow> CreationDate old \<noteq> CreationDate newPointer)
          then Some (SegmentDeletedErr segmentKey)
          else if oldPointerBytes \<noteq> newPointerBytes then Some (SegmentModifiedErr segmentKey)
          else None)"

text \<open>Go's integer division truncates towards zero.\<close>

definition go_quot :: "int \<Rightarrow> int \<Rightarrow> int" where
  "go_quot a b = sgn a * sgn b * (\<bar>a\<bar> div \<bar>b\<bar>)"

definition GetRandomStripe :: "Verifier \<Rightarrow> Pointer \<Rightarrow> (error + int) outcome" where
  "GetRandomStripe v pointer =
     (case NewRedundancyStrategyFromProto v (GetRedundancy (GetRemote pointer)) of
        Inl err \<Rightarrow> Return (Inl err)
      | Inr stripeSize \<Rightarrow>
          if SegmentSize pointer < stripeSize then Return (Inr 0)
          else if stripeSize = 0 then Panic
          else
            (let numStripes = go_quot (SegmentSize pointer) stripeSize
             in if numStripes \<le> 0 then Panic else Return (Inr (rnd_Int63n v numStripes))))"

definition getOfflineNodes :: "Pointer \<Rightarrow> AddressedOrderLimit option list \<Rightarrow> (NodeID \<Rightarrow> bool) \<Rightarrow> NodeID list" where
  "getOfflineNodes pointer limits skip =
     (let nodesWithLimit =
            fold (\<lambda>limit m. case limit of None \<Rightarrow> m | Some l \<Rightarrow> m(StorageNodeId l := True))
              limits (\<lambda>_. False)
      in map NodeId
           (filter (\<lambda>piece. \<not> nodesWithLimit (NodeId piece) \<and> \<not> skip (NodeId piece))
              (GetRemotePieces (GetRemote pointer))))"

text \<open>The local variables of \<open>Verify\<close> that the classification loop updates.\<close>

record VerifyState =
  offlineNodes :: "NodeID list"
  failedNodes :: "NodeID list"
  unknownNodes :: "NodeID list"
  containedNodes :: "(int \<times> NodeID) list"
  sharesToAudit :: "(int \<times> Share) list"

text \<open>One iteration of the loop \<open>for pieceNum, share := range shares\<close>.\<close>

definition classifyShare :: "int \<times> Share \<Rightarrow> VerifyState \<Rightarrow> VerifyState" where
  "classifyShare entry st =
     (let pieceNum = fst entry; share = snd entry in
      case Error share of
        None \<Rightarrow> st\<lparr>sharesToAudit := AList.update pieceNum share (sharesToAudit st)\<rparr>
      | Some err \<Rightarrow>
          if rpc_Error_Has err then
            (if Is_context_DeadlineExceeded err then st\<lparr>offlineNodes := offlineNodes st @ [NodeID share]\<rparr>
             else if IsRPC err StatusUnknown then st\<lparr>offlineNodes := offlineNodes st @ [NodeID share]\<rparr>
             else st\<lparr>unknownNodes := unknownNodes st @ [NodeID share]\<rparr>)
          else if IsRPC err StatusNotFound then st\<lparr>failedNodes := failedNodes st @ [NodeID share]\<rparr>
          else if IsRPC err StatusDeadlineExceeded then
            st\<lparr>containedNodes := AList.update pieceNum (NodeID share) (containedNodes st)\<rparr>
          else st\<lparr>unknownNodes := unknownNodes st @ [NodeID share]\<rparr>)"

definition classifyShares :: "Verifier \<Rightarrow> (int \<times> Share) list \<Rightarrow> NodeID list \<Rightarrow> VerifyState" where
  "classifyShares v shares offlines =
     fold classifyShare (rangeShares v 0 shares)
       \<lparr>offlineNodes = offlines, failedNodes = [], unknownNodes = [], containedNodes = [],
        sharesToAudit = []\<rparr>"

definition makeCopies :: "Verifier \<Rightarrow> (int \<times> Share) list \<Rightarrow> infectious_Share list" where
  "makeCopies v originals =
     map (\<lambda>entry. \<lparr>Number = PieceNum (snd entry), ShareData = Data (snd entry)\<rparr>)
       (rangeShares v 1 originals)"

definition auditShares :: "Verifier \<Rightarrow> int \<Rightarrow> int \<Rightarrow> (int \<times> Share) list
    \<Rightarrow> error + (int list \<times> infectious_Share list)" where
  "auditShares v required totalShares originals =
     (case infectious_NewFEC v required totalShares of
        Inl err \<Rightarrow> Inl err
      | Inr f \<Rightarrow>
         (case Correct f (makeCopies v originals) of
            Inl err \<Rightarrow> Inl err
          | Inr copies \<Rightarrow>
              Inr (map Number
                     (filter (\<lambda>share. Data (lookupShare originals (Number share)) \<noteq> ShareData share) copies),
                   copies)))"

definition markNodes :: "NodeID list \<Rightarrow> (NodeID \<Rightarrow> bool) \<Rightarrow> (NodeID \<Rightarrow> bool)" where
  "markNodes ids fails = fold (\<lambda>id m. m(id := True)) ids fails"

definition getSuccessNodes :: "Verifier \<Rightarrow> (int \<times> Share) list \<Rightarrow> NodeID list \<Rightarrow> NodeID list \<Rightarrow> NodeID list
    \<Rightarrow> (int \<times> NodeID) list \<Rightarrow> NodeID list" where
  "getSuccessNodes v shares failed offline unknown containedIn =
     (let fails =
            markNodes (map snd (rangeContained v 0 containedIn))
              (markNodes unknown (markNodes offline (markNodes failed (\<lambda>_. False))))
      in map (\<lambda>entry. NodeID (snd entry))
           (filter (\<lambda>entry. \<not> fails (NodeID (snd entry))) (rangeShares v 2 shares)))"

text \<open>
  \<open>copy(stripe[off:], data)\<close>: slicing panics when the offset is outside the stripe;
  \<open>copy\<close> writes as many bytes as both slices hold.
\<close>

definition copyAt :: "byte list \<Rightarrow> int \<Rightarrow> byte list \<Rightarrow> byte list outcome" where
  "copyAt stripe off data =
     (if off < 0 \<or> int (length stripe) < off then Panic
      else
        (let n = min (length stripe - nat off) (length data)
         in Return (take (nat off) stripe @ take n data @ drop (nat off + n) stripe)))"

fun rebuildOutput :: "int \<Rightarrow> infectious_Share list \<Rightarrow> byte list \<Rightarrow> byte list outcome" where
  "rebuildOutput shareSize [] stripe = Return stripe"
| "rebuildOutput shareSize (share # shares) stripe =
     (case copyAt stripe (Number share * shareSize) (ShareData share) of
        Panic \<Rightarrow> Panic
      | Return stripe' \<Rightarrow> rebuildOutput shareSize shares stripe')"

definition rebuildStripe :: "FEC \<Rightarrow> infectious_Share list \<Rightarrow> int \<Rightarrow> (error + byte list) outcome" where
  "rebuildStripe fec corrected shareSize =
     (if Required fec * shareSize < 0 then Panic
      else
        (case rebuildOutput shareSize (fst (Rebuild fec corrected))
                (replicate (nat (Required fec * shareSize)) 0) of
           Panic \<Rightarrow> Panic
         | Return stripe \<Rightarrow>
            (case snd (Rebuild fec corrected) of
               Some err \<Rightarrow> Return (Inl err)
             | None \<Rightarrow> Return (Inr stripe))))"

text \<open>The loop \<open>for pieceNum, nodeID := range containedNodes\<close> of \<open>createPendingAudits\<close>.\<close>

fun pendingLoop :: "Verifier \<Rightarrow> FEC \<Rightarrow> byte list \<Rightarrow> int \<Rightarrow> Pointer \<Rightarrow> int \<Rightarrow> string
    \<Rightarrow> (int \<times> NodeID) list \<Rightarrow> PendingAudit list \<Rightarrow> (error + PendingAudit list) outcome" where
  "pendingLoop v fec stripeData shareSize pointer randomIndex path [] pending = Return (Inr pending)"
| "pendingLoop v fec stripeData shareSize pointer randomIndex path (entry # rest) pending =
     (if shareSize < 0 then Panic
      else
        (case EncodeSingle fec stripeData (replicate (nat shareSize) 0) (fst entry) of
           Inl err \<Rightarrow> Return (Inl (AuditErr err))
         | Inr share \<Rightarrow>
            (case GetRemote pointer of
               None \<Rightarrow> Panic
             | Some remote \<Rightarrow>
                 pendingLoop v fec stripeData shareSize pointer randomIndex path rest
                   (pending @
                    [\<lparr>PendingAudit_NodeID = snd entry, PieceID = RootPieceId remote,
                      StripeIndex = randomIndex, ShareSize = shareSize,
                      ExpectedShareHash = SHA256Hash v share, Path = path\<rparr>]))))"

definition createPendingAudits :: "Verifier \<Rightarrow> (int \<times> NodeID) list \<Rightarrow> infectious_Share list \<Rightarrow> Pointer
    \<Rightarrow> int \<Rightarrow> string \<Rightarrow> (error + PendingAudit list) outcome" where
  "createPendingAudits v containedIn correctedShares pointer randomIndex path =
     (if length containedIn = 0 then Return (Inr [])
      else
        (let redundancy = GetRedundancy (GetRemote pointer);
             required = GetMinReq redundancy;
             totalShares = GetTotal redundancy;
             shareSize = GetErasureShareSize redundancy
         in case infectious_NewFEC v required totalShares of
              Inl err \<Rightarrow> Return (Inl (AuditErr err))
            | Inr fec \<Rightarrow>
               (case rebuildStripe fec correctedShares shareSize of
                  Panic \<Rightarrow> Panic
                | Return (Inl err) \<Rightarrow> Return (Inl (AuditErr err))
                | Return (Inr stripeData) \<Rightarrow>
                    pendingLoop v fec stripeData shareSize pointer randomIndex path
                      (rangeContained v 1 containedIn) [])))"

subsection \<open>Verify\<close>

text \<open>Lines 176 to 328: from the classification of the downloaded shares to the report.\<close>

definition VerifyShares :: "Verifier \<Rightarrow> string \<Rightarrow> Pointer \<Rightarrow> int \<Rightarrow> NodeID list \<Rightarrow> (int \<times> Share) list
    \<Rightarrow> (Report \<times> error option) outcome" where
  "VerifyShares v path pointer randomIndex offlines shares =
     (let st = classifyShares v shares offlines in
      case Remote pointer of
        None \<Rightarrow> Panic
      | Some remote \<Rightarrow>
         (let required = GetMinReq (Redundancy remote);
              totalShares = GetTotal (Redundancy remote)
          in if int (length (sharesToAudit st)) < required then
               Return (\<lparr>Successes = [], Fails = failedNodes st, Offlines = offlineNodes st,
                        PendingAudits = [], Unknown = unknownNodes st\<rparr>,
                       Some (NotEnoughSharesErr (int (length (sharesToAudit st))) required))
             else
               (case auditShares v required totalShares (sharesToAudit st) of
                  Inl err \<Rightarrow>
                    Return (\<lparr>Successes = [], Fails = failedNodes st, Offlines = offlineNodes st,
                             PendingAudits = [], Unknown = unknownNodes st\<rparr>, Some err)
                | Inr (pieceNums, correctedShares) \<Rightarrow>
                   (let failed = failedNodes st @ map (\<lambda>pieceNum. NodeID (lookupShare shares pieceNum)) pieceNums;
                        successNodes = getSuccessNodes v shares failed (offlineNodes st) (unknownNodes st)
                                         (containedNodes st)
                    in case createPendingAudits v (containedNodes st) correctedShares pointer randomIndex path of
                         Panic \<Rightarrow> Panic
                       | Return (Inl err) \<Rightarrow>
                           Return (\<lparr>Successes = successNodes, Fails = failed, Offlines = offlineNodes st,
                                    PendingAudits = [], Unknown = unknownNodes st\<rparr>, Some err)
                       | Return (Inr pendingAudits) \<Rightarrow>
                           Return (\<lparr>Successes = successNodes, Fails = failed, Offlines = offlineNodes st,
                                    PendingAudits = pendingAudits, Unknown = unknownNodes st\<rparr>, None)))))"

text \<open>Lines 123 to 174: stripe choice, order limits, downloads and the tamper check.\<close>

definition VerifySegment :: "Verifier \<Rightarrow> string \<Rightarrow> (NodeID \<Rightarrow> bool) \<Rightarrow> byte list \<Rightarrow> Pointer
    \<Rightarrow> (Report \<times> error option) outcome" where
  "VerifySegment v path skip pointerBytes pointer =
     (case GetRandomStripe v pointer of
        Panic \<Rightarrow> Panic
      | Return (Inl err) \<Rightarrow> Return (emptyReport, Some err)
      | Return (Inr randomIndex) \<Rightarrow>
         (let shareSize = GetErasureShareSize (GetRedundancy (GetRemote pointer)) in
          case ParseSegmentKey v of
            Some err \<Rightarrow> Return (emptyReport, Some err)
          | None \<Rightarrow>
             (case orders_CreateAuditOrderLimits v of
                Inl err \<Rightarrow> Return (emptyReport, Some err)
              | Inr orderLimits \<Rightarrow>
                 (let offlines = getOfflineNodes pointer orderLimits skip in
                  case DownloadShares v orderLimits randomIndex shareSize of
                    Panic \<Rightarrow> Panic
                  | Return (shares, Some err) \<Rightarrow> Return (emptyReport\<lparr>Offlines := offlines\<rparr>, Some err)
                  | Return (shares, None) \<Rightarrow>
                     (case checkIfSegmentAltered v path (Some pointer) pointerBytes of
                        Some err \<Rightarrow>
                          if ErrSegmentDeleted_Has err then Return (emptyReport, None)
                          else if ErrSegmentModified_Has err then Return (emptyReport, None)
                          else Return (emptyReport\<lparr>Offlines := offlines\<rparr>, Some err)
                      | None \<Rightarrow> VerifyShares v path pointer randomIndex offlines shares)))))"

text \<open>
  The function deferred at line 112, which runs on every return after that line and
  rewrites the named result \<open>report\<close>.
\<close>

definition VerifyDeferred :: "Verifier \<Rightarrow> Pointer \<Rightarrow> Report \<Rightarrow> Report" where
  "VerifyDeferred v pointer report =
     (if UsedToVerifyPieceHashes v then report
      else if \<not> PieceHashesVerified pointer then report\<lparr>PendingAudits := [], Fails := []\<rparr>
      else report)"

definition Verify :: "Verifier \<Rightarrow> string \<Rightarrow> (NodeID \<Rightarrow> bool) \<Rightarrow> (Report \<times> error option) outcome" where
  "Verify v path skip =
     (case metainfo_GetWithBytes v of
        Inl err \<Rightarrow>
          if ErrObjectNotFound_Has err then Return (emptyReport, None)
          else Return (emptyReport, Some err)
      | Inr (pointerBytes, pointer) \<Rightarrow>
          if ExpirationDate pointer \<noteq> time_zero \<and> ExpirationDate pointer < time_Now v then
            (case metainfo_Delete v of
               Some errDelete \<Rightarrow> Return (emptyReport, Some (AuditErr errDelete))
             | None \<Rightarrow> Return (emptyReport, None))
          else
            (case VerifySegment v path skip pointerBytes pointer of
               Panic \<Rightarrow> Panic
             | Return (report, err) \<Rightarrow> Return (VerifyDeferred v pointer report, err)))"

subsection \<open>VerifyPieceHashes\<close>

text \<open>
  One pass through the loop body talks to the metainfo store twice (the read at the top,
  the conditional update at the bottom) and runs one \<open>Verify\<close>; the record holds the
  store's two answers and the environment of that \<open>Verify\<close>. A call of
  \<open>UpdatePiecesCheckDuplicatesVerifyHashes\<close> is recorded with its arguments.
\<close>

record PieceHashesAttempt =
  attempt_GetWithBytes :: "error + (byte list \<times> Pointer)"
  attempt_Verifier :: Verifier
  attempt_Update :: "error option"

record PieceHashesVerifier =
  OnTestingVerifyMockFunc :: "(nat \<Rightarrow> Report \<times> error option) option"
  attempt :: "nat \<Rightarrow> PieceHashesAttempt"

record UpdateCall =
  update_segmentKey :: string
  update_pointer :: Pointer
  update_toAdd :: "RemotePiece list"
  update_toRemove :: "RemotePiece list"
  update_checkDuplicates :: bool
  update_markHashesVerified :: bool

datatype loopStep = Continue | Done bool "error option"

definition maxAttempts :: int where
  "maxAttempts = 3"

text \<open>The audit of pass \<open>n\<close>: the testing mock when it is set, \<open>Verify\<close> with a nil skip map otherwise.\<close>

definition attemptVerify :: "PieceHashesVerifier \<Rightarrow> string \<Rightarrow> nat \<Rightarrow> (Report \<times> error option) outcome" where
  "attemptVerify pv path n =
     (case OnTestingVerifyMockFunc pv of
        Some mock \<Rightarrow> Return (mock n)
      | None \<Rightarrow> Verify (attempt_Verifier (attempt pv n)) path (\<lambda>_. False))"

definition verifyPieceHashesBody :: "PieceHashesVerifier \<Rightarrow> string \<Rightarrow> bool \<Rightarrow> nat
    \<Rightarrow> (loopStep \<times> UpdateCall list) outcome" where
  "verifyPieceHashesBody pv path dryRun n =
     (case attempt_GetWithBytes (attempt pv n) of
        Inl err \<Rightarrow>
          if ErrObjectNotFound_Has err then Return (Done False None, [])
          else Return (Done False (Some (AuditErr err)), [])
      | Inr (pointerBytes, pointer) \<Rightarrow>
          if PieceHashesVerified pointer then Return (Done False None, [])
          else if Type pointer \<noteq> REMOTE then Return (Done False None, [])
          else
            (case attemptVerify pv path n of
               Panic \<Rightarrow> Panic
             | Return (report, Some err) \<Rightarrow> Return (Done False (Some err), [])
             | Return (report, None) \<Rightarrow>
                 if length (Successes report) = 0 then Return (Done False None, [])
                 else
                   (case Remote pointer of
                      None \<Rightarrow> Panic
                    | Some remote \<Rightarrow>
                       (case Redundancy remote of
                          None \<Rightarrow> Panic
                        | Some redundancy \<Rightarrow>
                            if int (length (Successes report)) < MinReq redundancy then
                              Return (Done False None, [])
                            else if int (length (Successes report)) < RepairThreshold redundancy then
                              Return (Done False None, [])
                            else
                              (let toRemoveCount =
                                     length (Fails report) + length (Offlines report)
                                       + length (PendingAudits report) + length (Unknown report);
                                   toRemove =
                                     filter (\<lambda>piece. NodeId piece \<notin> set (Successes report))
                                       (RemotePieces remote)
                               in if length toRemove \<noteq> toRemoveCount then
                                    Return (Done False
                                              (Some (PiecesToRemoveMismatchErr (int (length toRemove))
                                                       (int toRemoveCount))), [])
                                  else if dryRun then Return (Done True None, [])
                                  else
                                    (let call = \<lparr>update_segmentKey = path, update_pointer = pointer,
                                                 update_toAdd = [], update_toRemove = toRemove,
                                                 update_checkDuplicates = False,
                                                 update_markHashesVerified = True\<rparr>
                                     in case attempt_Update (attempt pv n) of
                                          Some err \<Rightarrow>
                                            if ErrValueChanged_Has err then Return (Continue, [call])
                                            else if ErrKeyNotFound_Has err then Return (Done False None, [call])
                                            else Return (Done False (Some (AuditErr err)), [call])
                                        | None \<Rightarrow> Return (Done True None, [call])))))))"

text \<open>
  The loop \<open>for attempts := 0; attempts < maxAttempts; attempts++\<close>, whose body starts
  with \<open>attempts++\<close>. \<open>n\<close> counts the passes made so far and \<open>calls\<close> collects the
  update calls made so far; neither is a variable of the source.
\<close>

function VerifyPieceHashesLoop :: "PieceHashesVerifier \<Rightarrow> string \<Rightarrow> bool \<Rightarrow> int \<Rightarrow> nat \<Rightarrow> UpdateCall list
    \<Rightarrow> ((bool \<times> error option) \<times> UpdateCall list) outcome" where
  "VerifyPieceHashesLoop pv path dryRun attempts n calls =
     (if attempts < maxAttempts then
        (case verifyPieceHashesBody pv path dryRun n of
           Panic \<Rightarrow> Panic
         | Return (Done changed err, cs) \<Rightarrow> Return ((changed, err), calls @ cs)
         | Return (Continue, cs) \<Rightarrow>
             VerifyPieceHashesLoop pv path dryRun ((attempts + 1) + 1) (Suc n) (calls @ cs))
      else Return ((False, Some (FailedToModifyErr maxAttempts)), calls))"
  by pat_completeness auto
termination
  by (relation "measure (\<lambda>(pv, path, dryRun, attempts, n, calls). nat (maxAttempts - attempts))") auto

definition VerifyPieceHashes :: "PieceHashesVerifier \<Rightarrow> string \<Rightarrow> bool
    \<Rightarrow> ((bool \<times> error option) \<times> UpdateCall list) outcome" where
  "VerifyPieceHashes pv path dryRun = VerifyPieceHashesLoop pv path dryRun 0 0 []"

subsection \<open>Auxiliary definitions for the proofs\<close>

text \<open>The share that the task for index \<open>i\<close> sends, if there is such a task.\<close>

definition taskShare :: "Verifier \<Rightarrow> AddressedOrderLimit option list \<Rightarrow> int \<Rightarrow> int \<Rightarrow> nat \<Rightarrow> Share option" where
  "taskShare v limits stripeIndex shareSize i =
     (case limits ! i of
        None \<Rightarrow> None
      | Some limit \<Rightarrow>
         (case downloadTask v stripeIndex shareSize i limit of Return s \<Rightarrow> Some s | Panic \<Rightarrow> None))"

text \<open>The bucket into which the classification loop of \<open>Verify\<close> puts a share.\<close>

datatype verdict = ToAudit | Offline | Unclassified | Failed | Contained

definition verdictOf :: "Share \<Rightarrow> verdict" where
  "verdictOf share =
     (case Error share of
        None \<Rightarrow> ToAudit
      | Some err \<Rightarrow>
          if rpc_Error_Has err then
            (if Is_context_DeadlineExceeded err \<or> IsRPC err StatusUnknown then Offline else Unclassified)
          else if IsRPC err StatusNotFound then Failed
          else if IsRPC err StatusDeadlineExceeded then Contained
          else Unclassified)"

definition sharesWith :: "verdict \<Rightarrow> (int \<times> Share) list \<Rightarrow> (int \<times> Share) list" where
  "sharesWith b entries = filter (\<lambda>entry. verdictOf (snd entry) = b) entries"

subsection \<open>A concrete audit\<close>

text \<open>
  A segment of nine pieces on the nodes 10 to 18 under a toy linear code with \<open>k = 2\<close>
  and shares of two bytes: share 0 and share 1 are the two halves of the stripe, share
  \<open>i\<close> is the first half plus \<open>i\<close> times the second. Nodes 10 and 11 serve their
  shares; node 12 accepts the dial and then times out; node 13 no longer has the piece;
  node 14 cannot be dialled in time; node 15 fails in an unclassified way; node 16 got
  no order limit; node 17 is skipped by the caller; node 18 serves altered bytes.
\<close>

definition exEncode :: "byte list \<Rightarrow> int \<Rightarrow> byte list" where
  "exEncode stripe i =
     (if i = 0 then take 2 stripe
      else if i = 1 then drop 2 stripe
      else map (\<lambda>(a, b). a + word_of_int i * b) (zip (take 2 stripe) (drop 2 stripe)))"

definition exStripe :: "byte list" where
  "exStripe = [5, 6, 1, 1]"

definition exFEC :: FEC where
  "exFEC =
     \<lparr>Required = 2,
      Correct = (\<lambda>copies. Inr (map (\<lambda>s. s\<lparr>ShareData := exEncode exStripe (Number s)\<rparr>) copies)),
      Rebuild = (\<lambda>corrected.
                  ([\<lparr>Number = 0, ShareData = exEncode exStripe 0\<rparr>,
                    \<lparr>Number = 1, ShareData = exEncode exStripe 1\<rparr>], None)),
      EncodeSingle = (\<lambda>stripe out num. Inr (take (length out) (exEncode stripe num)))\<rparr>"

definition exRedundancy :: RedundancyScheme where
  "exRedundancy =
     \<lparr>MinReq = 2, Total = 9, RepairThreshold = 2, SuccessThreshold = 3, ErasureShareSize = 2\<rparr>"

definition exPieces :: "RemotePiece list" where
  "exPieces =
     [\<lparr>RemotePiece_PieceNum = 0, NodeId = 10\<rparr>, \<lparr>RemotePiece_PieceNum = 1, NodeId = 11\<rparr>,
      \<lparr>RemotePiece_PieceNum = 2, NodeId = 12\<rparr>, \<lparr>RemotePiece_PieceNum = 3, NodeId = 13\<rparr>,
      \<lparr>RemotePiece_PieceNum = 4, NodeId = 14\<rparr>, \<lparr>RemotePiece_PieceNum = 5, NodeId = 15\<rparr>,
      \<lparr>RemotePiece_PieceNum = 6, NodeId = 16\<rparr>, \<lparr>RemotePiece_PieceNum = 7, NodeId = 17\<rparr>,
      \<lparr>RemotePiece_PieceNum = 8, NodeId = 18\<rparr>]"

definition exPointer :: Pointer where
  "exPointer =
     \<lparr>Type = REMOTE,
      Remote = Some \<lparr>Redundancy = Some exRedundancy, RootPieceId = 77, RemotePieces = exPieces\<rparr>,
      SegmentSize = 4, CreationDate = 100, ExpirationDate = 0, PieceHashesVerified = True\<rparr>"

definition exPointerBytes :: "byte list" where
  "exPointerBytes = [1, 2, 3]"

definition exLimit :: "NodeID \<Rightarrow> AddressedOrderLimit option" where
  "exLimit n = Some \<lparr>StorageNodeId = n, StorageNodeAddress = ''node''\<rparr>"

definition exLimits :: "AddressedOrderLimit option list" where
  "exLimits =
     [exLimit 10, exLimit 11, exLimit 12, exLimit 13, exLimit 14, exLimit 15, None, None, exLimit 18]"

definition exSkip :: "NodeID \<Rightarrow> bool" where
  "exSkip n = (n = 17)"

definition exServes :: "byte list \<Rightarrow> NodeResponse" where
  "exServes bytes =
     \<lparr>dialError = None, downloadError = None, readFull = Inr bytes, downloaderClose = None\<rparr>"

definition exReadFails :: "StatusCode \<Rightarrow> NodeResponse" where
  "exReadFails code =
     \<lparr>dialError = None, downloadError = None,
      readFull = Inl \<lparr>rpc_Error_Has = False, Is_context_DeadlineExceeded = False, rpcstatus_Code = code\<rparr>,
      downloaderClose = None\<rparr>"

definition exDialTimeout :: NodeResponse where
  "exDialTimeout =
     \<lparr>dialError = Some \<lparr>rpc_Error_Has = True, Is_context_DeadlineExceeded = True,
                        rpcstatus_Code = StatusUnknown\<rparr>,
      downloadError = None, readFull = Inr [], downloaderClose = None\<rparr>"

definition exNode :: "nat \<Rightarrow> NodeResponse" where
  "exNode i =
     (if i = 2 then exReadFails StatusDeadlineExceeded
      else if i = 3 then exReadFails StatusNotFound
      else if i = 4 then exDialTimeout
      else if i = 5 then exReadFails StatusInternal
      else if i = 8 then exServes [255, 255]
      else exServes (exEncode exStripe (int i)))"

definition exVerifier :: Verifier where
  "exVerifier =
     \<lparr>UsedToVerifyPieceHashes = False,
      metainfo_GetWithBytes = Inr (exPointerBytes, exPointer),
      time_Now = 1000,
      metainfo_Delete = None,
      NewRedundancyStrategyFromProto = (\<lambda>redundancy. Inr 4),
      rnd_Int63n = (\<lambda>n. 0),
      ParseSegmentKey = None,
      orders_CreateAuditOrderLimits = Inr exLimits,
      node = exNode,
      Error_Wrap_share = (\<lambda>err. err),
      errs_Combine_share = (\<lambda>err1 err2. err1),
      channelOrder = rev,
      metainfo_GetWithBytes_again = Inr (exPointerBytes, exPointer),
      rangeShares = (\<lambda>site m. rev m),
      rangeContained = (\<lambda>site m. m),
      infectious_NewFEC = (\<lambda>k n. Inr exFEC),
      SHA256Hash = (\<lambda>bytes. rev bytes)\<rparr>"

text \<open>The shares that the concrete audit downloads, in the order of their arrival.\<close>

definition exShareError :: "StatusCode \<Rightarrow> ShareError" where
  "exShareError code =
     \<lparr>rpc_Error_Has = False, Is_context_DeadlineExceeded = False, rpcstatus_Code = code\<rparr>"

definition exShares :: "(int \<times> Share) list" where
  "exShares =
     [(8, \<lparr>Error = None, PieceNum = 8, NodeID = 18, Data = [255, 255]\<rparr>),
      (5, \<lparr>Error = Some (exShareError StatusInternal), PieceNum = 5, NodeID = 15, Data = []\<rparr>),
      (4, \<lparr>Error = Some \<lparr>rpc_Error_Has = True, Is_context_DeadlineExceeded = True,
                         rpcstatus_Code = StatusUnknown\<rparr>,
           PieceNum = 4, NodeID = 14, Data = []\<rparr>),
      (3, \<lparr>Error = Some (exShareError StatusNotFound), PieceNum = 3, NodeID = 13, Data = []\<rparr>),
      (2, \<lparr>Error = Some (exShareError StatusDeadlineExceeded), PieceNum = 2, NodeID = 12, Data = []\<rparr>),
      (1, \<lparr>Error = None, PieceNum = 1, NodeID = 11, Data = [1, 1]\<rparr>),
      (0, \<lparr>Error = None, PieceNum = 0, NodeID = 10, Data = [5, 6]\<rparr>)]"

text \<open>
  Variants of the concrete audit: the same segment with other redundancy numbers and
  with piece hashes not yet verified, audited on behalf of \<open>VerifyPieceHashes\<close>.
\<close>

definition exPointerUnverified :: "int \<Rightarrow> Pointer" where
  "exPointerUnverified k =
     exPointer\<lparr>Remote := Some \<lparr>Redundancy = Some (exRedundancy\<lparr>MinReq := k, RepairThreshold := k\<rparr>),
                               RootPieceId = 77, RemotePieces = exPieces\<rparr>,
               PieceHashesVerified := False\<rparr>"

definition exVerifierUnverified :: "int \<Rightarrow> Verifier" where
  "exVerifierUnverified k =
     exVerifier\<lparr>UsedToVerifyPieceHashes := True,
                metainfo_GetWithBytes := Inr (exPointerBytes, exPointerUnverified k),
                metainfo_GetWithBytes_again := Inr (exPointerBytes, exPointerUnverified k)\<rparr>"

definition exPieceHashes :: "int \<Rightarrow> (nat \<Rightarrow> error option) \<Rightarrow> PieceHashesVerifier" where
  "exPieceHashes k answers =
     \<lparr>OnTestingVerifyMockFunc = None,
      attempt = (\<lambda>n. \<lparr>attempt_GetWithBytes = Inr (exPointerBytes, exPointerUnverified k),
                       attempt_Verifier = exVerifierUnverified k,
                       attempt_Update = answers n\<rparr>)\<rparr>"

definition exReport :: Report where
  "exReport =
     \<lparr>Successes = [10, 11], Fails = [13, 18], Offlines = [16, 17, 14],
      PendingAudits = [\<lparr>PendingAudit_NodeID = 12, PieceID = 77, StripeIndex = 0, ShareSize = 2,
                        ExpectedShareHash = [8, 7], Path = ''seg''\<rparr>],
      Unknown = [15]\<rparr>"

definition exCall :: UpdateCall where
  "exCall =
     \<lparr>update_segmentKey = ''seg'', update_pointer = exPointerUnverified 2, update_toAdd = [],
      update_toRemove = drop 2 exPieces, update_checkDuplicates = False,
      update_markHashesVerified = True\<rparr>"

text \<open>
  Further variants: the segment expired (with the answer of the store to the delete),
  the segment as the store returns it at the second fetch, and the unverified segment
  audited by the ordinary audit loop (not on behalf of \<open>VerifyPieceHashes\<close>).
\<close>

definition exExpired :: "error option \<Rightarrow> Verifier" where
  "exExpired deleteAnswer =
     exVerifier\<lparr>metainfo_GetWithBytes := Inr (exPointerBytes, exPointer\<lparr>ExpirationDate := 500\<rparr>),
                metainfo_Delete := deleteAnswer\<rparr>"

definition exRefetched :: "error + (byte list \<times> Pointer) \<Rightarrow> Verifier" where
  "exRefetched again = exVerifier\<lparr>metainfo_GetWithBytes_again := again\<rparr>"

definition exVerifierGuarded :: "int \<Rightarrow> Verifier" where
  "exVerifierGuarded k = (exVerifierUnverified k)\<lparr>UsedToVerifyPieceHashes := False\<rparr>"

definition exRemote :: "int \<Rightarrow> RemoteSegment" where
  "exRemote k =
     \<lparr>Redundancy = Some (exRedundancy\<lparr>MinReq := k, RepairThreshold := k\<rparr>), RootPieceId = 77,
      RemotePieces = exPieces\<rparr>"

subsection \<open>Auxiliary definitions for the statements about Verify\<close>

text \<open>The test of line 103, and what it takes for \<open>Verify\<close> to get as far as line 161.\<close>

definition expired :: "Verifier \<Rightarrow> Pointer \<Rightarrow> bool" where
  "expired v pointer \<longleftrightarrow> ExpirationDate pointer \<noteq> time_zero \<and> ExpirationDate pointer < time_Now v"

definition reachesTamperCheck :: "Verifier \<Rightarrow> byte list \<Rightarrow> Pointer \<Rightarrow> int \<Rightarrow> AddressedOrderLimit option list
    \<Rightarrow> (int \<times> Share) list \<Rightarrow> bool" where
  "reachesTamperCheck v pointerBytes pointer randomIndex limits shares \<longleftrightarrow>
     metainfo_GetWithBytes v = Inr (pointerBytes, pointer) \<and>
     \<not> expired v pointer \<and>
     GetRandomStripe v pointer = Return (Inr randomIndex) \<and>
     ParseSegmentKey v = None \<and>
     orders_CreateAuditOrderLimits v = Inr limits \<and>
     DownloadShares v limits randomIndex (GetErasureShareSize (GetRedundancy (GetRemote pointer)))
       = Return (shares, None)"

text \<open>The pending audit and the report of the concrete audit (node 17 skipped by the caller).\<close>

definition exPending :: PendingAudit where
  "exPending =
     \<lparr>PendingAudit_NodeID = 12, PieceID = 77, StripeIndex = 0, ShareSize = 2,
      ExpectedShareHash = [8, 7], Path = ''seg''\<rparr>"

definition exReportSkip :: Report where
  "exReportSkip =
     \<lparr>Successes = [10, 11], Fails = [13, 18], Offlines = [16, 14], PendingAudits = [exPending],
      Unknown = [15]\<rparr>"

subsection \<open>Auxiliary definitions for the accounting of nodes\<close>

text \<open>The nodes for which the order service issued a limit, in the order of the slice.\<close>

fun limitNodes :: "AddressedOrderLimit option list \<Rightarrow> NodeID list" where
  "limitNodes [] = []"
| "limitNodes (None # limits) = limitNodes limits"
| "limitNodes (Some limit # limits) = StorageNodeId limit # limitNodes limits"

text \<open>
  Modelled from the spec: the contract of \<open>orders.Service.CreateAuditOrderLimits\<close>, code of
  the repository that is not among the sources at hand. The spec has it issue limits
  ``for every piece in the pointer, except those in skip and those the overlay considers
  unusable'': no node gets two limits and no skipped node gets one.
\<close>

definition limitsIssuedFor :: "(NodeID \<Rightarrow> bool) \<Rightarrow> AddressedOrderLimit option list \<Rightarrow> bool" where
  "limitsIssuedFor skip limits \<longleftrightarrow>
     distinct (limitNodes limits) \<and> list_all (\<lambda>n. \<not> skip n) (limitNodes limits)"

text \<open>
  The erasure codes of the environment correct the data of the shares and leave their
  numbers alone, as \<open>infectious.FEC.Correct\<close> does.
\<close>

definition correctKeepsNumbers :: "Verifier \<Rightarrow> bool" where
  "correctKeepsNumbers v \<longleftrightarrow>
     (\<forall>k n fec copies corrected.
        infectious_NewFEC v k n = Inr fec \<and> Correct fec copies = Inr corrected \<longrightarrow>
        mset (map Number corrected) = mset (map Number copies))"

text \<open>
  How often a node appears in the five lists of a report (pending audits by their node)
  and in the caller's skip set.
\<close>

definition appearances :: "Report \<Rightarrow> (NodeID \<Rightarrow> bool) \<Rightarrow> NodeID \<Rightarrow> nat" where
  "appearances report skip n =
     count_list (Successes report) n + count_list (Fails report) n + count_list (Offlines report) n
       + count_list (Unknown report) n + count_list (map PendingAudit_NodeID (PendingAudits report)) n
       + (if skip n then 1 else 0)"

text \<open>Every entry of the downloaded map comes from a limit: its key is the index of the limit.\<close>

definition fromLimits :: "AddressedOrderLimit option list \<Rightarrow> (int \<times> Share) list \<Rightarrow> bool" where
  "fromLimits limits shares \<longleftrightarrow>
     (\<forall>k s. (k, s) \<in> set shares \<longrightarrow>
        PieceNum s = k \<and>
        (\<exists>i l. i < length limits \<and> k = int i \<and> limits ! i = Some l \<and> NodeID s = StorageNodeId l))"

subsection \<open>What the audit changes in the metainfo store\<close>

text \<open>
  \<open>Verify\<close> changes the store in one place only: the \<open>metainfo.Delete\<close> of line 104,
  called with the path and the bytes just read when the pointer's expiration date is set
  and past. \<open>VerifyDeletes\<close> lists these calls, from the same reads and the same test as
  \<open>Verify\<close>. A pass of \<open>VerifyPieceHashes\<close> runs \<open>Verify\<close> unless the testing mock is
  set, so these are also the deletions of the pass; its own change to the store is the
  conditional update recorded by \<open>verifyPieceHashesBody\<close>.
\<close>

definition VerifyDeletes :: "Verifier \<Rightarrow> string \<Rightarrow> (string \<times> byte list) list" where
  "VerifyDeletes v path =
     (case metainfo_GetWithBytes v of
        Inl err \<Rightarrow> []
      | Inr (pointerBytes, pointer) \<Rightarrow>
          if ExpirationDate pointer \<noteq> time_zero \<and> ExpirationDate pointer < time_Now v
          then [(path, pointerBytes)] else [])"

definition attemptDeletes :: "PieceHashesVerifier \<Rightarrow> string \<Rightarrow> nat \<Rightarrow> (string \<times> byte list) list" where
  "attemptDeletes pv path n =
     (case OnTestingVerifyMockFunc pv of
        Some mock \<Rightarrow> []
      | None \<Rightarrow> VerifyDeletes (attempt_Verifier (attempt pv n)) path)"

text \<open>
  The unverified segment of the concrete audit, expired at time 500, under
  \<open>VerifyPieceHashes\<close> at time 1000 with a store that accepts the delete.
\<close>

definition exPointerExpired :: Pointer where
  "exPointerExpired = (exPointerUnverified 2)\<lparr>ExpirationDate := 500\<rparr>"

definition exPieceHashesExpired :: PieceHashesVerifier where
  "exPieceHashesExpired =
     \<lparr>OnTestingVerifyMockFunc = None,
      attempt = (\<lambda>n. \<lparr>attempt_GetWithBytes = Inr (exPointerBytes, exPointerExpired),
                       attempt_Verifier =
                         (exVerifierUnverified 2)
                           \<lparr>metainfo_GetWithBytes := Inr (exPointerBytes, exPointerExpired)\<rparr>,
                       attempt_Update = None\<rparr>)\<rparr>"




definition exReportGuarded :: Report where
  "exReportGuarded =
     \<lparr>Successes = [10, 11], Fails = [], Offlines = [16, 14], PendingAudits = [], Unknown = [15]\<rparr>"

section \<open>DownloadShares\<close>

lemma GetShare_returns:
  assumes "0 \<le> shareSize"
  shows "\<exists>share err. GetShare v resp limit stripeIndex shareSize pieceNum = Return (share, err) \<and>
           (err = None \<longrightarrow> Error share = None \<and> PieceNum share = pieceNum \<and> NodeID share = StorageNodeId limit)"
  using assms
  by (auto simp: GetShare_def errs_Combine_def split: option.splits sum.splits)

lemma downloadTask_returns:
  assumes "0 \<le> shareSize"
  shows "\<exists>share. downloadTask v stripeIndex shareSize i limit = Return share \<and>
           PieceNum share = int i \<and> NodeID share = StorageNodeId limit \<and>
           (\<forall>sh err. GetShare v (node v i) limit stripeIndex shareSize (int i) = Return (sh, err) \<longrightarrow>
              Error share = err \<and> (err = None \<longrightarrow> share = sh) \<and> (err \<noteq> None \<longrightarrow> Data share = []))"
proof -
  from GetShare_returns [OF assms, of v "node v i" limit stripeIndex "int i"]
  obtain share err where g: "GetShare v (node v i) limit stripeIndex shareSize (int i) = Return (share, err)"
    and ok: "err = None \<longrightarrow> Error share = None \<and> PieceNum share = int i \<and> NodeID share = StorageNodeId limit"
    by blast
  show ?thesis
    using g ok by (cases err) (simp_all add: downloadTask_def)
qed

lemma collectShares_map:
  assumes "0 \<le> shareSize"
  shows "\<exists>shares. collectShares v limits stripeIndex shareSize js acc = Return shares \<and>
           (distinct (map fst acc) \<longrightarrow> distinct (map fst shares)) \<and>
           (\<forall>k. map_of shares k =
              (if \<exists>i\<in>set js. k = int i \<and> limits ! i \<noteq> None
               then taskShare v limits stripeIndex shareSize (nat k) else map_of acc k))"
proof (induction js arbitrary: acc)
  case Nil
  show ?case by simp
next
  case (Cons j js)
  show ?case
  proof (cases "limits ! j")
    case None
    from Cons.IH [of acc] obtain shares where
      c: "collectShares v limits stripeIndex shareSize js acc = Return shares"
      and d: "distinct (map fst acc) \<longrightarrow> distinct (map fst shares)"
      and m: "\<forall>k. map_of shares k =
              (if \<exists>i\<in>set js. k = int i \<and> limits ! i \<noteq> None
               then taskShare v limits stripeIndex shareSize (nat k) else map_of acc k)"
      by blast
    show ?thesis
      using c d m None by auto
  next
    case (Some limit)
    from downloadTask_returns [OF assms, of v stripeIndex j limit] obtain share where
      t: "downloadTask v stripeIndex shareSize j limit = Return share" and p: "PieceNum share = int j"
      by blast
    let ?acc = "AList.update (int j) share acc"
    from Cons.IH [of ?acc] obtain shares where
      c: "collectShares v limits stripeIndex shareSize js ?acc = Return shares"
      and d: "distinct (map fst ?acc) \<longrightarrow> distinct (map fst shares)"
      and m: "\<forall>k. map_of shares k =
              (if \<exists>i\<in>set js. k = int i \<and> limits ! i \<noteq> None
               then taskShare v limits stripeIndex shareSize (nat k) else map_of ?acc k)"
      by blast
    have ts: "taskShare v limits stripeIndex shareSize j = Some share"
      using Some t by (simp add: taskShare_def)
    have c': "collectShares v limits stripeIndex shareSize (j # js) acc = Return shares"
      using c Some t p by simp
    have d': "distinct (map fst acc) \<longrightarrow> distinct (map fst shares)"
      using d by (simp add: distinct_update)
    have m': "\<forall>k. map_of shares k =
              (if \<exists>i\<in>set (j # js). k = int i \<and> limits ! i \<noteq> None
               then taskShare v limits stripeIndex shareSize (nat k) else map_of acc k)"
    proof
      fix k
      show "map_of shares k =
              (if \<exists>i\<in>set (j # js). k = int i \<and> limits ! i \<noteq> None
               then taskShare v limits stripeIndex shareSize (nat k) else map_of acc k)"
        using m [rule_format, of k] Some ts
        by (auto simp: update_conv')
    qed
    show ?thesis using c' d' m' by blast
  qed
qed


text \<open>
  Claim C10. Whatever the nodes do and in whatever order the results arrive,
  \<open>DownloadShares\<close> returns a nil error and a map that holds, for every index with a
  non-nil limit, one share under that index, carrying the index as piece number, the
  limit's node, and the error of \<open>GetShare\<close> in its \<open>Error\<close> field (the downloaded
  share itself when there is no error); an index whose limit is nil, or outside the
  slice, is not a key of the map. The share size is not negative: with a negative one
  \<open>GetShare\<close> panics in \<open>make\<close>.
\<close>

theorem DownloadShares_one_share_per_limit:
  assumes "mset (channelOrder v [0..<length limits]) = mset [0..<length limits]"
    and "0 \<le> shareSize"
  shows "\<exists>shares. DownloadShares v limits stripeIndex shareSize = Return (shares, None) \<and>
           distinct (map fst shares) \<and>
           (\<forall>k. k < 0 \<or> int (length limits) \<le> k \<longrightarrow> map_of shares k = None) \<and>
           (\<forall>i<length limits. limits ! i = None \<longrightarrow> map_of shares (int i) = None) \<and>
           (\<forall>i<length limits. \<forall>limit. limits ! i = Some limit \<longrightarrow>
              (\<exists>share. map_of shares (int i) = Some share \<and> PieceNum share = int i \<and>
                 NodeID share = StorageNodeId limit \<and>
                 (\<forall>sh err. GetShare v (node v i) limit stripeIndex shareSize (int i) = Return (sh, err) \<longrightarrow>
                    Error share = err \<and> (err = None \<longrightarrow> share = sh) \<and>
                    (err \<noteq> None \<longrightarrow> Data share = []))))"
proof -
  let ?js = "channelOrder v [0..<length limits]"
  let ?sent = "\<lambda>k. \<exists>i\<in>set ?js. k = int i \<and> limits ! i \<noteq> None"
  have set_js: "set ?js = {0..<length limits}"
    using assms(1) by (metis mset_eq_setD set_upt)
  from collectShares_map [OF assms(2), of v limits stripeIndex ?js "[]"] obtain shares where
    c: "collectShares v limits stripeIndex shareSize ?js [] = Return shares"
    and d0: "distinct (map fst ([] :: (int \<times> Share) list)) \<longrightarrow> distinct (map fst shares)"
    and m0: "\<forall>k. map_of shares k =
              (if ?sent k then taskShare v limits stripeIndex shareSize (nat k) else map_of [] k)"
    by blast
  have d: "distinct (map fst shares)"
    using d0 by simp
  have absent: "map_of shares k = None" if "\<not> ?sent k" for k
    using m0 [rule_format, of k] that by (simp only: if_False map_of.simps)
  have present: "map_of shares k = taskShare v limits stripeIndex shareSize (nat k)" if "?sent k" for k
    using m0 [rule_format, of k] that by (simp only: if_True)
  have r: "DownloadShares v limits stripeIndex shareSize = Return (shares, None)"
    using c by (simp add: DownloadShares_def)
  have outside: "\<forall>k. k < 0 \<or> int (length limits) \<le> k \<longrightarrow> map_of shares k = None"
  proof (intro allI impI)
    fix k :: int
    assume "k < 0 \<or> int (length limits) \<le> k"
    then have "\<not> ?sent k"
      using set_js by auto
    then show "map_of shares k = None"
      by (rule absent)
  qed
  have nil_limit: "\<forall>i<length limits. limits ! i = None \<longrightarrow> map_of shares (int i) = None"
  proof (intro allI impI)
    fix i
    assume "i < length limits" "limits ! i = None"
    then have "\<not> ?sent (int i)"
      by auto
    then show "map_of shares (int i) = None"
      by (rule absent)
  qed
  have with_limit: "\<forall>i<length limits. \<forall>limit. limits ! i = Some limit \<longrightarrow>
              (\<exists>share. map_of shares (int i) = Some share \<and> PieceNum share = int i \<and>
                 NodeID share = StorageNodeId limit \<and>
                 (\<forall>sh err. GetShare v (node v i) limit stripeIndex shareSize (int i) = Return (sh, err) \<longrightarrow>
                    Error share = err \<and> (err = None \<longrightarrow> share = sh) \<and>
                    (err \<noteq> None \<longrightarrow> Data share = [])))"
  proof (intro allI impI)
    fix i limit
    assume i: "i < length limits" and l: "limits ! i = Some limit"
    have "i \<in> set ?js"
      using i set_js by simp
    then have "?sent (int i)"
      using l by auto
    then have mk: "map_of shares (int i) = taskShare v limits stripeIndex shareSize i"
      using present [of "int i"] by simp
    from downloadTask_returns [OF assms(2), of v stripeIndex i limit]
    obtain share where t: "downloadTask v stripeIndex shareSize i limit = Return share"
      and p: "PieceNum share = int i" "NodeID share = StorageNodeId limit"
        "\<forall>sh err. GetShare v (node v i) limit stripeIndex shareSize (int i) = Return (sh, err) \<longrightarrow>
            Error share = err \<and> (err = None \<longrightarrow> share = sh) \<and> (err \<noteq> None \<longrightarrow> Data share = [])"
      by blast
    have "map_of shares (int i) = Some share"
      using mk l t by (simp add: taskShare_def)
    then show "\<exists>share. map_of shares (int i) = Some share \<and> PieceNum share = int i \<and>
                 NodeID share = StorageNodeId limit \<and>
                 (\<forall>sh err. GetShare v (node v i) limit stripeIndex shareSize (int i) = Return (sh, err) \<longrightarrow>
                    Error share = err \<and> (err = None \<longrightarrow> share = sh) \<and>
                    (err \<noteq> None \<longrightarrow> Data share = []))"
      using p by blast
  qed
  show ?thesis
    using r d outside nil_limit with_limit by blast
qed


theorem DownloadShares_one_share_per_limit_witness:
  "mset (channelOrder exVerifier [0..<length exLimits]) = mset [0..<length exLimits] \<and> (0::int) \<le> 2 \<and>
   (\<exists>shares. DownloadShares exVerifier exLimits 0 2 = Return (shares, None) \<and>
      distinct (map fst shares) \<and>
      (\<forall>k. k < 0 \<or> int (length exLimits) \<le> k \<longrightarrow> map_of shares k = None) \<and>
      (\<forall>i<length exLimits. exLimits ! i = None \<longrightarrow> map_of shares (int i) = None) \<and>
      (\<forall>i<length exLimits. \<forall>limit. exLimits ! i = Some limit \<longrightarrow>
         (\<exists>share. map_of shares (int i) = Some share \<and> PieceNum share = int i \<and>
            NodeID share = StorageNodeId limit \<and>
            (\<forall>sh err. GetShare exVerifier (node exVerifier i) limit 0 2 (int i) = Return (sh, err) \<longrightarrow>
               Error share = err \<and> (err = None \<longrightarrow> share = sh) \<and>
               (err \<noteq> None \<longrightarrow> Data share = [])))))"
proof -
  have h1: "mset (channelOrder exVerifier [0..<length exLimits]) = mset [0..<length exLimits]"
    by (simp add: exVerifier_def)
  have h2: "(0::int) \<le> 2"
    by simp
  show ?thesis
    using h1 h2 DownloadShares_one_share_per_limit [OF h1 h2, of 0] by blast
qed

section \<open>The classification loop of Verify\<close>

lemma update_fresh: "k \<notin> fst ` set al \<Longrightarrow> AList.update k v al = al @ [(k, v)]"
  by (induction al) auto

lemma classify_fold:
  assumes "distinct (map fst xs)"
    and "fst ` set xs \<inter> fst ` set (containedNodes st) = {}"
    and "fst ` set xs \<inter> fst ` set (sharesToAudit st) = {}"
  shows "fold classifyShare xs st =
     \<lparr>offlineNodes = offlineNodes st @ map (\<lambda>entry. NodeID (snd entry)) (sharesWith Offline xs),
      failedNodes = failedNodes st @ map (\<lambda>entry. NodeID (snd entry)) (sharesWith Failed xs),
      unknownNodes = unknownNodes st @ map (\<lambda>entry. NodeID (snd entry)) (sharesWith Unclassified xs),
      containedNodes = containedNodes st @ map (\<lambda>entry. (fst entry, NodeID (snd entry))) (sharesWith Contained xs),
      sharesToAudit = sharesToAudit st @ sharesWith ToAudit xs\<rparr>"
  using assms
proof (induction xs arbitrary: st)
  case Nil
  show ?case by (simp add: sharesWith_def)
next
  case (Cons x xs)
  obtain k s where x: "x = (k, s)" by (cases x)
  have fresh: "k \<notin> fst ` set (containedNodes st)" "k \<notin> fst ` set (sharesToAudit st)"
    using Cons.prems x by auto
  let ?st = "classifyShare x st"
  have keys: "fst ` set (containedNodes ?st) \<subseteq> insert k (fst ` set (containedNodes st))"
     "fst ` set (sharesToAudit ?st) \<subseteq> insert k (fst ` set (sharesToAudit st))"
    using fresh x by (auto simp: classifyShare_def update_fresh split: option.splits)
  have d: "distinct (map fst xs)" and kx: "k \<notin> fst ` set xs"
    using Cons.prems(1) x by auto
  have q2: "fst ` set xs \<inter> fst ` set (containedNodes st) = {}"
    and q3: "fst ` set xs \<inter> fst ` set (sharesToAudit st) = {}"
    using Cons.prems(2,3) by auto
  have p2: "fst ` set xs \<inter> fst ` set (containedNodes ?st) = {}"
    using keys(1) kx q2 by blast
  have p3: "fst ` set xs \<inter> fst ` set (sharesToAudit ?st) = {}"
    using keys(2) kx q3 by blast
  have step: "fold classifyShare (x # xs) st = fold classifyShare xs ?st"
    by simp
  show ?case
    unfolding step Cons.IH [OF d p2 p3]
    using fresh x
    by (cases "verdictOf s")
       (auto simp: classifyShare_def verdictOf_def sharesWith_def update_fresh
             split: option.splits if_splits)
qed


lemma range_distinct_keys:
  assumes "mset ys = mset xs" and "distinct (map fst xs)"
  shows "distinct (map fst ys)"
proof -
  have "mset (map fst ys) = mset (map fst xs)"
    using assms(1) by (metis mset_map)
  then show ?thesis
    using assms(2) by (metis mset_eq_imp_distinct_iff)
qed

lemma classifyShares_eq:
  assumes "mset (rangeShares v 0 shares) = mset shares" and "distinct (map fst shares)"
  shows "classifyShares v shares offlines =
     \<lparr>offlineNodes = offlines @ map (\<lambda>entry. NodeID (snd entry)) (sharesWith Offline (rangeShares v 0 shares)),
      failedNodes = map (\<lambda>entry. NodeID (snd entry)) (sharesWith Failed (rangeShares v 0 shares)),
      unknownNodes = map (\<lambda>entry. NodeID (snd entry)) (sharesWith Unclassified (rangeShares v 0 shares)),
      containedNodes = map (\<lambda>entry. (fst entry, NodeID (snd entry))) (sharesWith Contained (rangeShares v 0 shares)),
      sharesToAudit = sharesWith ToAudit (rangeShares v 0 shares)\<rparr>"
proof -
  have d: "distinct (map fst (rangeShares v 0 shares))"
    using assms by (rule range_distinct_keys)
  show ?thesis
    unfolding classifyShares_def
    by (subst classify_fold [OF d]) simp_all
qed





section \<open>VerifyPieceHashes\<close>

text \<open>
  Claim C8 fails on the code. The loop header and the first statement of the body both
  increment \<open>attempts\<close>, so the body runs for \<open>attempts = 0\<close> and \<open>attempts = 2\<close>
  only. Against a store that answers \<open>ValueChanged\<close> to the first two conditional
  updates and would accept the third, \<open>VerifyPieceHashes\<close> calls the update twice and
  then returns the error that reports \<open>maxAttempts = 3\<close> attempts.
\<close>

theorem VerifyPieceHashes_gives_up_after_two_passes:
  "VerifyPieceHashes (exPieceHashes 2 (\<lambda>n. if n < 2 then Some (ValueChangedErr ''seg'') else None))
      ''seg'' False =
     Return ((False, Some (FailedToModifyErr 3)), [exCall, exCall])"
  by code_simp

section \<open>The return paths of Verify\<close>

lemma Verify_expired:
  assumes "metainfo_GetWithBytes v = Inr (pointerBytes, pointer)" and "expired v pointer"
  shows "Verify v path skip = Return (emptyReport, map_option AuditErr (metainfo_Delete v))"
  using assms by (simp add: Verify_def expired_def split: option.splits)

lemma Verify_not_expired:
  assumes "metainfo_GetWithBytes v = Inr (pointerBytes, pointer)" and "\<not> expired v pointer"
  shows "Verify v path skip =
           (case VerifySegment v path skip pointerBytes pointer of
              Panic \<Rightarrow> Panic
            | Return (report, err) \<Rightarrow> Return (VerifyDeferred v pointer report, err))"
  using assms by (auto simp: Verify_def expired_def)

lemma VerifyDeferred_empty [simp]: "VerifyDeferred v pointer emptyReport = emptyReport"
  by (simp add: VerifyDeferred_def emptyReport_def)

lemma VerifySegment_reaches:
  assumes "reachesTamperCheck v pointerBytes pointer randomIndex limits shares"
  shows "VerifySegment v path skip pointerBytes pointer =
           (case checkIfSegmentAltered v path (Some pointer) pointerBytes of
              Some err \<Rightarrow>
                if ErrSegmentDeleted_Has err \<or> ErrSegmentModified_Has err then Return (emptyReport, None)
                else Return (emptyReport\<lparr>Offlines := getOfflineNodes pointer limits skip\<rparr>, Some err)
            | None \<Rightarrow> VerifyShares v path pointer randomIndex (getOfflineNodes pointer limits skip) shares)"
  using assms by (simp add: VerifySegment_def reachesTamperCheck_def Let_def split: option.splits)

lemma Verify_reaches:
  assumes "reachesTamperCheck v pointerBytes pointer randomIndex limits shares"
  shows "Verify v path skip =
           (case checkIfSegmentAltered v path (Some pointer) pointerBytes of
              Some err \<Rightarrow>
                if ErrSegmentDeleted_Has err \<or> ErrSegmentModified_Has err then Return (emptyReport, None)
                else Return (VerifyDeferred v pointer (emptyReport\<lparr>Offlines := getOfflineNodes pointer limits skip\<rparr>),
                             Some err)
            | None \<Rightarrow>
               (case VerifyShares v path pointer randomIndex (getOfflineNodes pointer limits skip) shares of
                  Panic \<Rightarrow> Panic
                | Return (report, err) \<Rightarrow> Return (VerifyDeferred v pointer report, err)))"
proof -
  have m: "metainfo_GetWithBytes v = Inr (pointerBytes, pointer)" and e: "\<not> expired v pointer"
    using assms by (simp_all add: reachesTamperCheck_def)
  show ?thesis
    unfolding Verify_not_expired [OF m e] VerifySegment_reaches [OF assms]
    by (simp split: option.splits)
qed

lemma collectShares_distinct:
  assumes "collectShares v limits stripeIndex shareSize js acc = Return shares"
    and "distinct (map fst acc)"
  shows "distinct (map fst shares)"
  using assms
proof (induction js arbitrary: acc)
  case Nil
  then show ?case by simp
next
  case (Cons j js)
  show ?case
  proof (cases "limits ! j")
    case None
    then show ?thesis using Cons by simp
  next
    case (Some limit)
    from Cons.prems(1) Some obtain share where
      "collectShares v limits stripeIndex shareSize js (AList.update (PieceNum share) share acc) = Return shares"
      by (auto split: outcome.splits)
    moreover have "distinct (map fst (AList.update (PieceNum share) share acc))"
      using Cons.prems(2) by (simp add: distinct_update)
    ultimately show ?thesis
      by (rule Cons.IH)
  qed
qed

lemma DownloadShares_distinct:
  assumes "DownloadShares v limits stripeIndex shareSize = Return (shares, err)"
  shows "distinct (map fst shares)"
proof -
  from assms have "collectShares v limits stripeIndex shareSize (channelOrder v [0..<length limits]) [] = Return shares"
    by (auto simp: DownloadShares_def split: outcome.splits)
  then show ?thesis
    by (rule collectShares_distinct) simp
qed

lemma verdict_ToAudit: "verdictOf share = ToAudit \<longleftrightarrow> Error share = None"
  by (simp add: verdictOf_def split: option.splits)

lemma length_filter_mset:
  assumes "mset ys = mset xs"
  shows "length (filter P ys) = length (filter P xs)"
proof -
  have "mset (filter P ys) = mset (filter P xs)"
    using assms by (simp add: mset_filter)
  then show ?thesis
    by (metis size_mset)
qed

lemma length_sharesToAudit:
  assumes "mset (rangeShares v 0 shares) = mset shares" and "distinct (map fst shares)"
  shows "length (sharesToAudit (classifyShares v shares offlines)) =
           length (filter (\<lambda>entry. Error (snd entry) = None) shares)"
  using length_filter_mset [OF assms(1), of "\<lambda>entry. Error (snd entry) = None"]
  by (simp add: classifyShares_eq [OF assms] sharesWith_def verdict_ToAudit)


text \<open>
  Claim C7, as the code has it. For a pointer whose expiration date is set and in the
  past, \<open>Verify\<close> asks the store to delete it and returns an empty report; the error
  is nil when the delete succeeds and the wrapped error of the delete when it fails.
\<close>

theorem Verify_expired_pointer:
  assumes "metainfo_GetWithBytes v = Inr (pointerBytes, pointer)"
    and "ExpirationDate pointer \<noteq> time_zero"
    and "ExpirationDate pointer < time_Now v"
  shows "Verify v path skip =
           Return (emptyReport, case metainfo_Delete v of None \<Rightarrow> None | Some errDelete \<Rightarrow> Some (AuditErr errDelete))"
  using assms by (simp add: Verify_def split: option.splits)

theorem Verify_expired_pointer_witness:
  "metainfo_GetWithBytes (exExpired None) = Inr (exPointerBytes, exPointer\<lparr>ExpirationDate := 500\<rparr>) \<and>
   ExpirationDate (exPointer\<lparr>ExpirationDate := 500\<rparr>) \<noteq> time_zero \<and>
   ExpirationDate (exPointer\<lparr>ExpirationDate := 500\<rparr>) < time_Now (exExpired None) \<and>
   Verify (exExpired None) ''seg'' exSkip = Return (emptyReport, None)"
proof -
  have h1: "metainfo_GetWithBytes (exExpired None) = Inr (exPointerBytes, exPointer\<lparr>ExpirationDate := 500\<rparr>)"
    by (simp add: exExpired_def)
  have h2: "ExpirationDate (exPointer\<lparr>ExpirationDate := 500\<rparr>) \<noteq> time_zero"
    by (simp add: time_zero_def)
  have h3: "ExpirationDate (exPointer\<lparr>ExpirationDate := 500\<rparr>) < time_Now (exExpired None)"
    by (simp add: exExpired_def exVerifier_def)
  have d: "metainfo_Delete (exExpired None) = None"
    by (simp add: exExpired_def)
  show ?thesis
    using h1 h2 h3 Verify_expired_pointer [OF h1 h2 h3, of "''seg''" exSkip] by (simp add: d)
qed

text \<open>
  The claim as written fails when the delete fails: the expired pointer is the one of
  the concrete audit with expiration date 500 at time 1000, and the store refuses the
  delete; \<open>Verify\<close> returns the wrapped error, not nil.
\<close>

theorem Verify_expired_pointer_delete_fails:
  "Verify (exExpired (Some (OtherErr ''store unavailable''))) ''seg'' exSkip =
     Return (emptyReport, Some (AuditErr (OtherErr ''store unavailable''))) \<and>
   Verify (exExpired (Some (OtherErr ''store unavailable''))) ''seg'' exSkip \<noteq> Return (emptyReport, None)"
  by code_simp

text \<open>
  Claim C6, as the code has it. When \<open>Verify\<close> has downloaded the shares and the
  second fetch of the pointer reports not-found, or returns a pointer whose creation
  date differs from the original's, or returns other bytes, then
  \<open>checkIfSegmentAltered\<close> yields \<open>ErrSegmentDeleted\<close> in the first two cases and
  \<open>ErrSegmentModified\<close> in the third (same creation date, other bytes), and \<open>Verify\<close>
  returns an empty report with a nil error.
\<close>

theorem Verify_absorbs_altered_segment:
  assumes "reachesTamperCheck v pointerBytes pointer randomIndex limits shares"
    and "(\<exists>err. metainfo_GetWithBytes_again v = Inl err \<and> ErrObjectNotFound_Has err) \<or>
         (\<exists>newBytes newPointer. metainfo_GetWithBytes_again v = Inr (newBytes, newPointer) \<and>
            (CreationDate pointer \<noteq> CreationDate newPointer \<or> pointerBytes \<noteq> newBytes))"
  shows "checkIfSegmentAltered v path (Some pointer) pointerBytes =
           Some (if (\<exists>err. metainfo_GetWithBytes_again v = Inl err) \<or>
                    (\<exists>newBytes newPointer. metainfo_GetWithBytes_again v = Inr (newBytes, newPointer) \<and>
                       CreationDate pointer \<noteq> CreationDate newPointer)
                 then SegmentDeletedErr path else SegmentModifiedErr path) \<and>
         Verify v path skip = Return (emptyReport, None)"
proof -
  have c: "checkIfSegmentAltered v path (Some pointer) pointerBytes =
           Some (if (\<exists>err. metainfo_GetWithBytes_again v = Inl err) \<or>
                    (\<exists>newBytes newPointer. metainfo_GetWithBytes_again v = Inr (newBytes, newPointer) \<and>
                       CreationDate pointer \<noteq> CreationDate newPointer)
                 then SegmentDeletedErr path else SegmentModifiedErr path)"
    using assms(2) by (auto simp: checkIfSegmentAltered_def)
  have "Verify v path skip = Return (emptyReport, None)"
    unfolding Verify_reaches [OF assms(1)] c by simp
  with c show ?thesis by simp
qed


theorem Verify_absorbs_altered_segment_witness:
  "reachesTamperCheck (exRefetched (Inr ([9, 9], exPointer))) exPointerBytes exPointer 0 exLimits exShares \<and>
   metainfo_GetWithBytes_again (exRefetched (Inr ([9, 9], exPointer))) = Inr ([9, 9], exPointer) \<and>
   exPointerBytes \<noteq> [9, 9] \<and>
   checkIfSegmentAltered (exRefetched (Inr ([9, 9], exPointer))) ''seg'' (Some exPointer) exPointerBytes
     = Some (SegmentModifiedErr ''seg'') \<and>
   Verify (exRefetched (Inr ([9, 9], exPointer))) ''seg'' exSkip = Return (emptyReport, None)"
proof -
  let ?v = "exRefetched (Inr ([9, 9], exPointer))"
  have h1: "reachesTamperCheck ?v exPointerBytes exPointer 0 exLimits exShares"
    unfolding reachesTamperCheck_def by (intro conjI; code_simp)
  have a: "metainfo_GetWithBytes_again ?v = Inr ([9, 9], exPointer)"
    by (simp add: exRefetched_def)
  have b: "exPointerBytes \<noteq> [9, 9]"
    by (simp add: exPointerBytes_def)
  have h2: "(\<exists>err. metainfo_GetWithBytes_again ?v = Inl err \<and> ErrObjectNotFound_Has err) \<or>
         (\<exists>newBytes newPointer. metainfo_GetWithBytes_again ?v = Inr (newBytes, newPointer) \<and>
            (CreationDate exPointer \<noteq> CreationDate newPointer \<or> exPointerBytes \<noteq> newBytes))"
    using a b by simp
  show ?thesis
    using h1 a b Verify_absorbs_altered_segment [OF h1 h2, of "''seg''" exSkip] by simp
qed

text \<open>
  The claim as written fails when the segment was deleted and created anew during the
  audit: the second fetch finds a pointer (it does not report not-found) with another
  creation date, and \<open>checkIfSegmentAltered\<close> yields \<open>ErrSegmentDeleted\<close>, not
  \<open>ErrSegmentModified\<close>.
\<close>

theorem checkIfSegmentAltered_recreated_segment:
  "metainfo_GetWithBytes_again (exRefetched (Inr (exPointerBytes, exPointer\<lparr>CreationDate := 101\<rparr>)))
     = Inr (exPointerBytes, exPointer\<lparr>CreationDate := 101\<rparr>) \<and>
   CreationDate (exPointer\<lparr>CreationDate := 101\<rparr>) \<noteq> CreationDate exPointer \<and>
   checkIfSegmentAltered (exRefetched (Inr (exPointerBytes, exPointer\<lparr>CreationDate := 101\<rparr>))) ''seg''
       (Some exPointer) exPointerBytes
     = Some (SegmentDeletedErr ''seg'') \<and>
   ErrSegmentDeleted_Has (SegmentDeletedErr ''seg'') \<and>
   \<not> ErrSegmentModified_Has (SegmentDeletedErr ''seg'')"
  by (simp add: checkIfSegmentAltered_def exRefetched_def exPointer_def)

text \<open>
  Claim C2, as the code has it. The deferred function clears the two lists only when
  the verifier is not the one of the verify-piece-hashes command
  (\<open>UsedToVerifyPieceHashes\<close> unset). Then, for a pointer whose \<open>PieceHashesVerified\<close>
  is false, every report that \<open>Verify\<close> returns has empty \<open>Fails\<close> and empty
  \<open>PendingAudits\<close>, whatever the error returned with it; it is the empty report for
  an expired pointer, and otherwise carries the \<open>Successes\<close>, \<open>Offlines\<close> and
  \<open>Unknown\<close> that the audit computed.
\<close>

theorem Verify_unverified_hashes_guard:
  assumes "metainfo_GetWithBytes v = Inr (pointerBytes, pointer)"
    and "\<not> PieceHashesVerified pointer"
    and "\<not> UsedToVerifyPieceHashes v"
    and "Verify v path skip = Return (report, err)"
  shows "Fails report = [] \<and> PendingAudits report = [] \<and>
         (if expired v pointer then report = emptyReport
          else \<exists>computed. VerifySegment v path skip pointerBytes pointer = Return (computed, err) \<and>
                 Successes report = Successes computed \<and> Offlines report = Offlines computed \<and>
                 Unknown report = Unknown computed)"
proof (cases "expired v pointer")
  case True
  have "report = emptyReport"
    using assms(4) Verify_expired [OF assms(1) True, of path skip] by simp
  then show ?thesis
    using True by (simp add: emptyReport_def)
next
  case False
  from assms(4) obtain computed where
    c: "VerifySegment v path skip pointerBytes pointer = Return (computed, err)"
    and r: "report = VerifyDeferred v pointer computed"
    unfolding Verify_not_expired [OF assms(1) False]
    by (auto split: outcome.splits)
  have "report = computed\<lparr>PendingAudits := [], Fails := []\<rparr>"
    using r assms(2,3) by (simp add: VerifyDeferred_def)
  then show ?thesis
    using False c by simp
qed

theorem Verify_unverified_hashes_guard_witness:
  "metainfo_GetWithBytes (exVerifierGuarded 2) = Inr (exPointerBytes, exPointerUnverified 2) \<and>
   \<not> PieceHashesVerified (exPointerUnverified 2) \<and>
   \<not> UsedToVerifyPieceHashes (exVerifierGuarded 2) \<and>
   Verify (exVerifierGuarded 2) ''seg'' exSkip =
     Return (\<lparr>Successes = [10, 11], Fails = [], Offlines = [16, 14], PendingAudits = [], Unknown = [15]\<rparr>,
             None) \<and>
   Fails \<lparr>Successes = [10, 11], Fails = [], Offlines = [16, 14], PendingAudits = [], Unknown = [15]\<rparr> = []"
proof -
  have h1: "metainfo_GetWithBytes (exVerifierGuarded 2) = Inr (exPointerBytes, exPointerUnverified 2)"
    by (simp add: exVerifierGuarded_def exVerifierUnverified_def)
  have h2: "\<not> PieceHashesVerified (exPointerUnverified 2)"
    by (simp add: exPointerUnverified_def)
  have h3: "\<not> UsedToVerifyPieceHashes (exVerifierGuarded 2)"
    by (simp add: exVerifierGuarded_def)
  have h4: "Verify (exVerifierGuarded 2) ''seg'' exSkip =
     Return (\<lparr>Successes = [10, 11], Fails = [], Offlines = [16, 14], PendingAudits = [], Unknown = [15]\<rparr>,
             None)"
    by code_simp
  show ?thesis
    using h1 h2 h3 h4 Verify_unverified_hashes_guard [OF h1 h2 h3 h4] by simp
qed

text \<open>
  The claim as written fails for the verifier of the verify-piece-hashes command: on
  the unverified segment of the concrete audit it reports the failed nodes 13 and 18
  and the pending audit of node 12.
\<close>

theorem Verify_reports_failures_for_piece_hash_command:
  "metainfo_GetWithBytes (exVerifierUnverified 2) = Inr (exPointerBytes, exPointerUnverified 2) \<and>
   \<not> PieceHashesVerified (exPointerUnverified 2) \<and>
   Verify (exVerifierUnverified 2) ''seg'' (\<lambda>n. False) = Return (exReport, None) \<and>
   Fails exReport = [13, 18] \<and>
   map PendingAudit_NodeID (PendingAudits exReport) = [12]"
  by (intro conjI; code_simp)

text \<open>
  Claim C5, as the code has it. When \<open>Verify\<close> has downloaded the shares, the segment
  is unaltered and fewer than \<open>MinReq\<close> shares came without error, \<open>Verify\<close> returns
  the error \<open>ErrNotEnoughShares\<close> with a report whose \<open>Successes\<close> and
  \<open>PendingAudits\<close> are empty and whose \<open>Offlines\<close> and \<open>Unknown\<close> are the lists
  classified so far; its \<open>Fails\<close> is the list classified so far when the pointer's
  piece hashes are verified (or the verifier is the one of the verify-piece-hashes
  command), and empty otherwise.
\<close>

theorem Verify_not_enough_shares:
  assumes "reachesTamperCheck v pointerBytes pointer randomIndex limits shares"
    and "checkIfSegmentAltered v path (Some pointer) pointerBytes = None"
    and "mset (rangeShares v 0 shares) = mset shares"
    and "Remote pointer = Some remote"
    and "int (length (filter (\<lambda>entry. Error (snd entry) = None) shares)) < GetMinReq (Redundancy remote)"
  shows "Verify v path skip =
           Return (\<lparr>Successes = [],
                    Fails = (if UsedToVerifyPieceHashes v \<or> PieceHashesVerified pointer
                             then failedNodes (classifyShares v shares (getOfflineNodes pointer limits skip))
                             else []),
                    Offlines = offlineNodes (classifyShares v shares (getOfflineNodes pointer limits skip)),
                    PendingAudits = [],
                    Unknown = unknownNodes (classifyShares v shares (getOfflineNodes pointer limits skip))\<rparr>,
                   Some (NotEnoughSharesErr
                           (int (length (filter (\<lambda>entry. Error (snd entry) = None) shares)))
                           (GetMinReq (Redundancy remote)))) \<and>
         ErrNotEnoughShares_Has
           (NotEnoughSharesErr (int (length (filter (\<lambda>entry. Error (snd entry) = None) shares)))
              (GetMinReq (Redundancy remote)))"
proof -
  let ?st = "classifyShares v shares (getOfflineNodes pointer limits skip)"
  have d: "distinct (map fst shares)"
    using assms(1) by (auto simp: reachesTamperCheck_def dest: DownloadShares_distinct)
  have len: "length (sharesToAudit ?st) = length (filter (\<lambda>entry. Error (snd entry) = None) shares)"
    using assms(3) d by (rule length_sharesToAudit)
  have vs: "VerifyShares v path pointer randomIndex (getOfflineNodes pointer limits skip) shares =
          Return (\<lparr>Successes = [], Fails = failedNodes ?st, Offlines = offlineNodes ?st,
                   PendingAudits = [], Unknown = unknownNodes ?st\<rparr>,
                  Some (NotEnoughSharesErr
                          (int (length (filter (\<lambda>entry. Error (snd entry) = None) shares)))
                          (GetMinReq (Redundancy remote))))"
    using assms(4,5) len by (simp add: VerifyShares_def Let_def)
  show ?thesis
    unfolding Verify_reaches [OF assms(1)] assms(2) vs
    by (simp add: VerifyDeferred_def)
qed

theorem Verify_not_enough_shares_witness:
  "reachesTamperCheck (exVerifierUnverified 5) exPointerBytes (exPointerUnverified 5) 0 exLimits exShares \<and>
   checkIfSegmentAltered (exVerifierUnverified 5) ''seg'' (Some (exPointerUnverified 5)) exPointerBytes = None \<and>
   mset (rangeShares (exVerifierUnverified 5) 0 exShares) = mset exShares \<and>
   Remote (exPointerUnverified 5) = Some (exRemote 5) \<and>
   int (length (filter (\<lambda>entry. Error (snd entry) = None) exShares)) < GetMinReq (Redundancy (exRemote 5)) \<and>
   Verify (exVerifierUnverified 5) ''seg'' exSkip =
     Return (\<lparr>Successes = [], Fails = [13], Offlines = [16, 14], PendingAudits = [], Unknown = [15]\<rparr>,
             Some (NotEnoughSharesErr 3 5))"
proof -
  let ?v = "exVerifierUnverified 5"
  have h1: "reachesTamperCheck ?v exPointerBytes (exPointerUnverified 5) 0 exLimits exShares"
    unfolding reachesTamperCheck_def by (intro conjI; code_simp)
  have h2: "checkIfSegmentAltered ?v ''seg'' (Some (exPointerUnverified 5)) exPointerBytes = None"
    by code_simp
  have h3: "mset (rangeShares ?v 0 exShares) = mset exShares"
    by (simp add: exVerifierUnverified_def exVerifier_def)
  have h4: "Remote (exPointerUnverified 5) = Some (exRemote 5)"
    by (simp add: exPointerUnverified_def exRemote_def)
  have h5: "int (length (filter (\<lambda>entry. Error (snd entry) = None) exShares)) < GetMinReq (Redundancy (exRemote 5))"
    by (simp add: exShares_def exRemote_def GetMinReq_def)
  have n: "int (length (filter (\<lambda>entry. Error (snd entry) = None) exShares)) = 3"
    by (simp add: exShares_def)
  have k: "GetMinReq (Redundancy (exRemote 5)) = 5"
    by (simp add: exRemote_def GetMinReq_def)
  have u: "UsedToVerifyPieceHashes ?v"
    by (simp add: exVerifierUnverified_def)
  have st: "classifyShares ?v exShares (getOfflineNodes (exPointerUnverified 5) exLimits exSkip) =
          \<lparr>offlineNodes = [16, 14], failedNodes = [13], unknownNodes = [15], containedNodes = [(2, 12)],
           sharesToAudit = [(0, \<lparr>Error = None, PieceNum = 0, NodeID = 10, Data = [5, 6]\<rparr>),
                            (1, \<lparr>Error = None, PieceNum = 1, NodeID = 11, Data = [1, 1]\<rparr>),
                            (8, \<lparr>Error = None, PieceNum = 8, NodeID = 18, Data = [255, 255]\<rparr>)]\<rparr>"
    by code_simp
  show ?thesis
    using h1 h2 h3 h4 h5 Verify_not_enough_shares [OF h1 h2 h3 h4 h5, of exSkip]
    by (simp add: n k u st)
qed

text \<open>
  The claim as written fails for an unverified segment under the ordinary audit loop:
  node 13 was classified as failed, and the report returned with \<open>ErrNotEnoughShares\<close>
  has an empty \<open>Fails\<close>.
\<close>

theorem Verify_not_enough_shares_drops_fails:
  "Verify (exVerifierGuarded 5) ''seg'' exSkip =
     Return (\<lparr>Successes = [], Fails = [], Offlines = [16, 14], PendingAudits = [], Unknown = [15]\<rparr>,
             Some (NotEnoughSharesErr 3 5)) \<and>
   failedNodes (classifyShares (exVerifierGuarded 5) exShares
                  (getOfflineNodes (exPointerUnverified 5) exLimits exSkip)) = [13] \<and>
   length (filter (\<lambda>entry. Error (snd entry) = None) exShares) = 3 \<and>
   DownloadShares (exVerifierGuarded 5) exLimits 0 2 = Return (exShares, None)"
  by (intro conjI; code_simp)

section \<open>Pending audits\<close>









section \<open>Every piece of the pointer is accounted for\<close>

lemma downloadTask_fields:
  assumes "downloadTask v stripeIndex shareSize i limit = Return share"
  shows "PieceNum share = int i \<and> NodeID share = StorageNodeId limit"
  using assms
  by (auto simp: downloadTask_def GetShare_def errs_Combine_def
           split: outcome.splits option.splits if_splits sum.splits prod.splits)

lemma set_update_subset: "set (AList.update k v al) \<subseteq> insert (k, v) (set al)"
  by (induction al) auto

lemma collectShares_fromLimits:
  assumes "collectShares v limits stripeIndex shareSize js acc = Return shares"
    and "fromLimits limits acc" and "\<forall>j\<in>set js. j < length limits"
  shows "fromLimits limits shares"
  using assms
proof (induction js arbitrary: acc)
  case Nil
  then show ?case by simp
next
  case (Cons j js)
  have jl: "j < length limits" and rest: "\<forall>j\<in>set js. j < length limits"
    using Cons.prems(3) by simp_all
  show ?case
  proof (cases "limits ! j")
    case None
    then show ?thesis using Cons.IH [of acc] Cons.prems(1,2) rest by simp
  next
    case (Some limit)
    from Cons.prems(1) Some obtain share where
      t: "downloadTask v stripeIndex shareSize j limit = Return share"
      and c: "collectShares v limits stripeIndex shareSize js (AList.update (PieceNum share) share acc) = Return shares"
      by (auto split: outcome.splits)
    note f = downloadTask_fields [OF t]
    have "fromLimits limits (AList.update (PieceNum share) share acc)"
      unfolding fromLimits_def
    proof (intro allI impI)
      fix k s
      assume "(k, s) \<in> set (AList.update (PieceNum share) share acc)"
      then have "(k, s) = (PieceNum share, share) \<or> (k, s) \<in> set acc"
        using set_update_subset [of "PieceNum share" share acc] by blast
      then show "PieceNum s = k \<and> (\<exists>i l. i < length limits \<and> k = int i \<and> limits ! i = Some l \<and> NodeID s = StorageNodeId l)"
      proof
        assume "(k, s) = (PieceNum share, share)"
        then show ?thesis using f jl Some by auto
      next
        assume "(k, s) \<in> set acc"
        then show ?thesis using Cons.prems(2) by (simp add: fromLimits_def)
      qed
    qed
    from Cons.IH [OF c this rest] show ?thesis .
  qed
qed

lemma collectShares_keys:
  assumes "collectShares v limits stripeIndex shareSize js acc = Return shares"
  shows "fst ` set shares = fst ` set acc \<union> {int i | i. i \<in> set js \<and> limits ! i \<noteq> None}"
  using assms
proof (induction js arbitrary: acc)
  case Nil
  then show ?case by simp
next
  case (Cons j js)
  show ?case
  proof (cases "limits ! j")
    case None
    then show ?thesis using Cons.IH [of acc] Cons.prems by auto
  next
    case (Some limit)
    from Cons.prems(1) Some obtain share where
      t: "downloadTask v stripeIndex shareSize j limit = Return share"
      and c: "collectShares v limits stripeIndex shareSize js (AList.update (PieceNum share) share acc) = Return shares"
      by (auto split: outcome.splits)
    note f = downloadTask_fields [OF t]
    have "fst ` set shares = fst ` set (AList.update (int j) share acc) \<union> {int i | i. i \<in> set js \<and> limits ! i \<noteq> None}"
      using Cons.IH [OF c] f by simp
    then show ?thesis
      using Some by (auto simp: dom_update)
  qed
qed


lemma limitNodes_nth:
  assumes "i < length limits" and "limits ! i = Some l"
  shows "StorageNodeId l \<in> set (limitNodes limits)"
  using assms
proof (induction limits arbitrary: i rule: limitNodes.induct)
  case 1
  then show ?case by simp
next
  case (2 limits)
  then show ?case by (cases i) auto
next
  case (3 limit limits)
  then show ?case by (cases i) auto
qed

lemma limitNodes_member:
  assumes "n \<in> set (limitNodes limits)"
  shows "\<exists>i l. i < length limits \<and> limits ! i = Some l \<and> StorageNodeId l = n"
  using assms
proof (induction limits rule: limitNodes.induct)
  case 1
  then show ?case by simp
next
  case (2 limits)
  then obtain i l where "i < length limits" "limits ! i = Some l" "StorageNodeId l = n"
    by auto
  then have "Suc i < length (None # limits) \<and> (None # limits) ! Suc i = Some l \<and> StorageNodeId l = n"
    by simp
  then show ?case by blast
next
  case (3 limit limits)
  show ?case
  proof (cases "n = StorageNodeId limit")
    case True
    then have "0 < length (Some limit # limits) \<and> (Some limit # limits) ! 0 = Some limit \<and> StorageNodeId limit = n"
      by simp
    then show ?thesis by blast
  next
    case False
    with 3 obtain i l where "i < length limits" "limits ! i = Some l" "StorageNodeId l = n"
      by auto
    then have "Suc i < length (Some limit # limits) \<and> (Some limit # limits) ! Suc i = Some l \<and> StorageNodeId l = n"
      by simp
    then show ?thesis by blast
  qed
qed

lemma limitNodes_index_unique:
  assumes "distinct (limitNodes limits)"
    and "i < length limits" and "limits ! i = Some l"
    and "j < length limits" and "limits ! j = Some l'"
    and "StorageNodeId l = StorageNodeId l'"
  shows "i = j"
  using assms
proof (induction limits arbitrary: i j rule: limitNodes.induct)
  case 1
  then show ?case by simp
next
  case (2 limits)
  from "2.prems" show ?case
    by (cases i; cases j) (auto dest: "2.IH")
next
  case (3 limit limits)
  have d: "distinct (limitNodes limits)" and fresh: "StorageNodeId limit \<notin> set (limitNodes limits)"
    using "3.prems"(1) by simp_all
  show ?case
  proof (cases i)
    case 0
    show ?thesis
    proof (cases j)
      case 0
      with \<open>i = 0\<close> show ?thesis by simp
    next
      case (Suc j')
      then have "StorageNodeId l' \<in> set (limitNodes limits)"
        using "3.prems"(4,5) by (auto intro: limitNodes_nth)
      moreover have "l = limit"
        using 0 "3.prems"(3) by simp
      ultimately show ?thesis
        using fresh "3.prems"(6) by simp
    qed
  next
    case (Suc i')
    show ?thesis
    proof (cases j)
      case 0
      have "StorageNodeId l \<in> set (limitNodes limits)"
        using Suc "3.prems"(2,3) by (auto intro: limitNodes_nth)
      moreover have "l' = limit"
        using 0 "3.prems"(5) by simp
      ultimately show ?thesis
        using fresh "3.prems"(6) by simp
    next
      case (Suc j')
      have "i' = j'"
        using "3.IH" [OF d, of i' j'] "3.prems"(2-6) \<open>i = Suc i'\<close> Suc by simp
      then show ?thesis
        using \<open>i = Suc i'\<close> Suc by simp
    qed
  qed
qed

lemma nodesWithLimit_fold:
  "fold (\<lambda>limit m. case limit of None \<Rightarrow> m | Some l \<Rightarrow> m(StorageNodeId l := True)) limits m0
     = (\<lambda>n. m0 n \<or> n \<in> set (limitNodes limits))"
proof (induction limits arbitrary: m0 rule: limitNodes.induct)
  case 1
  show ?case by simp
next
  case (2 limits)
  then show ?case by simp
next
  case (3 limit limits)
  show ?case
    by (simp add: "3.IH") auto
qed

lemma getOfflineNodes_eq:
  "getOfflineNodes pointer limits skip =
     map NodeId (filter (\<lambda>piece. NodeId piece \<notin> set (limitNodes limits) \<and> \<not> skip (NodeId piece))
                   (GetRemotePieces (GetRemote pointer)))"
  by (simp add: getOfflineNodes_def nodesWithLimit_fold)

lemma DownloadShares_wellformed:
  assumes "DownloadShares v limits stripeIndex shareSize = Return (shares, err)"
    and "mset (channelOrder v [0..<length limits]) = mset [0..<length limits]"
    and "distinct (limitNodes limits)"
  shows "distinct (map fst shares)"
    and "fromLimits limits shares"
    and "(\<lambda>entry. NodeID (snd entry)) ` set shares = set (limitNodes limits)"
    and "inj_on (\<lambda>entry. NodeID (snd entry)) (set shares)"
proof -
  let ?js = "channelOrder v [0..<length limits]"
  have set_js: "set ?js = {0..<length limits}"
    using assms(2) by (metis mset_eq_setD set_upt)
  from assms(1) have c: "collectShares v limits stripeIndex shareSize ?js [] = Return shares"
    by (auto simp: DownloadShares_def split: outcome.splits)
  show d: "distinct (map fst shares)"
    using assms(1) by (rule DownloadShares_distinct)
  show fl: "fromLimits limits shares"
    using c by (rule collectShares_fromLimits) (simp_all add: fromLimits_def set_js)
  have keys: "fst ` set shares = {int i | i. i < length limits \<and> limits ! i \<noteq> None}"
    using collectShares_keys [OF c] set_js by auto
  show "(\<lambda>entry. NodeID (snd entry)) ` set shares = set (limitNodes limits)"
  proof (intro set_eqI iffI)
    fix n
    assume "n \<in> (\<lambda>entry. NodeID (snd entry)) ` set shares"
    then obtain k s where "(k, s) \<in> set shares" "n = NodeID s"
      by auto
    with fl obtain i l where "i < length limits" "limits ! i = Some l" "n = StorageNodeId l"
      unfolding fromLimits_def by blast
    then show "n \<in> set (limitNodes limits)"
      by (auto intro: limitNodes_nth)
  next
    fix n
    assume "n \<in> set (limitNodes limits)"
    from limitNodes_member [OF this] obtain i l where
      i: "i < length limits" "limits ! i = Some l" "StorageNodeId l = n"
      by blast
    then have "int i \<in> fst ` set shares"
      using keys by auto
    then obtain s where s: "(int i, s) \<in> set shares"
      by auto
    with fl obtain i' l' where "i' < length limits" "int i = int i'" "limits ! i' = Some l'"
      "NodeID s = StorageNodeId l'"
      unfolding fromLimits_def by blast
    then have "NodeID s = n"
      using i by simp
    then show "n \<in> (\<lambda>entry. NodeID (snd entry)) ` set shares"
      using s by force
  qed
  show "inj_on (\<lambda>entry. NodeID (snd entry)) (set shares)"
  proof (rule inj_onI)
    fix e e'
    assume e: "e \<in> set shares" and e': "e' \<in> set shares"
      and same: "NodeID (snd e) = NodeID (snd e')"
    from fl e obtain i l where i: "i < length limits" "fst e = int i" "limits ! i = Some l"
      "NodeID (snd e) = StorageNodeId l"
      unfolding fromLimits_def by (metis prod.collapse)
    from fl e' obtain j l' where j: "j < length limits" "fst e' = int j" "limits ! j = Some l'"
      "NodeID (snd e') = StorageNodeId l'"
      unfolding fromLimits_def by (metis prod.collapse)
    have "i = j"
      using limitNodes_index_unique [OF assms(3) i(1,3) j(1,3)] i(4) j(4) same by simp
    then have "fst e = fst e'"
      using i(2) j(2) by simp
    then show "e = e'"
      using d e e' by (metis eq_key_imp_eq_value prod.collapse)
  qed
qed

lemma VerifyShares_success:
  assumes "VerifyShares v path pointer randomIndex offlines shares = Return (computed, None)"
  shows "\<exists>remote pieceNums corrected pendings.
           Remote pointer = Some remote \<and>
           auditShares v (GetMinReq (Redundancy remote)) (GetTotal (Redundancy remote))
             (sharesToAudit (classifyShares v shares offlines)) = Inr (pieceNums, corrected) \<and>
           createPendingAudits v (containedNodes (classifyShares v shares offlines)) corrected pointer
             randomIndex path = Return (Inr pendings) \<and>
           computed =
             \<lparr>Successes =
                getSuccessNodes v shares
                  (failedNodes (classifyShares v shares offlines)
                     @ map (\<lambda>pieceNum. NodeID (lookupShare shares pieceNum)) pieceNums)
                  (offlineNodes (classifyShares v shares offlines))
                  (unknownNodes (classifyShares v shares offlines))
                  (containedNodes (classifyShares v shares offlines)),
              Fails = failedNodes (classifyShares v shares offlines)
                        @ map (\<lambda>pieceNum. NodeID (lookupShare shares pieceNum)) pieceNums,
              Offlines = offlineNodes (classifyShares v shares offlines),
              PendingAudits = pendings,
              Unknown = unknownNodes (classifyShares v shares offlines)\<rparr>"
  using assms
  by (auto simp: VerifyShares_def Let_def split: option.splits if_splits sum.splits outcome.splits prod.splits)

lemma pendingLoop_nodes:
  assumes "pendingLoop v fec stripe shareSize pointer randomIndex path entries acc = Return (Inr pendings)"
  shows "map PendingAudit_NodeID pendings = map PendingAudit_NodeID acc @ map snd entries"
  using assms
proof (induction entries arbitrary: acc)
  case Nil
  then show ?case by simp
next
  case (Cons entry entries)
  from Cons.prems obtain share remote where
    e: "EncodeSingle fec stripe (replicate (nat shareSize) 0) (fst entry) = Inr share"
    and r: "Remote pointer = Some remote"
    and rest: "pendingLoop v fec stripe shareSize pointer randomIndex path entries
                 (acc @ [\<lparr>PendingAudit_NodeID = snd entry, PieceID = RootPieceId remote,
                           StripeIndex = randomIndex, ShareSize = shareSize,
                           ExpectedShareHash = SHA256Hash v share, Path = path\<rparr>]) = Return (Inr pendings)"
    by (auto simp: GetRemote_def split: if_splits sum.splits option.splits)
  from Cons.IH [OF rest] show ?case by simp
qed

lemma createPendingAudits_nodes:
  assumes "createPendingAudits v containedIn corrected pointer randomIndex path = Return (Inr pendings)"
    and "mset (rangeContained v 1 containedIn) = mset containedIn"
  shows "mset (map PendingAudit_NodeID pendings) = mset (map snd containedIn)"
proof (cases "length containedIn = 0")
  case True
  then show ?thesis using assms(1) by (simp add: createPendingAudits_def)
next
  case False
  from assms(1) False obtain fec stripe shareSize where
    "pendingLoop v fec stripe shareSize pointer randomIndex path (rangeContained v 1 containedIn) []
       = Return (Inr pendings)"
    by (auto simp: createPendingAudits_def Let_def split: sum.splits outcome.splits)
  from pendingLoop_nodes [OF this] have "map PendingAudit_NodeID pendings = map snd (rangeContained v 1 containedIn)"
    by simp
  then show ?thesis
    using assms(2) by (metis mset_map)
qed

lemma auditShares_pieceNums:
  assumes "auditShares v k n originals = Inr (pieceNums, corrected)"
    and "correctKeepsNumbers v"
    and "mset (rangeShares v 1 originals) = mset originals"
    and "\<forall>entry\<in>set originals. PieceNum (snd entry) = fst entry"
  shows "mset pieceNums \<subseteq># mset (map fst originals)"
proof -
  from assms(1) obtain fec where f: "infectious_NewFEC v k n = Inr fec"
    and c: "Correct fec (makeCopies v originals) = Inr corrected"
    and p: "pieceNums = map Number
              (filter (\<lambda>share. Data (lookupShare originals (Number share)) \<noteq> ShareData share) corrected)"
    by (auto simp: auditShares_def split: sum.splits)
  have "mset (map Number corrected) = mset (map Number (makeCopies v originals))"
    using assms(2) f c unfolding correctKeepsNumbers_def by blast
  also have "\<dots> = mset (map (\<lambda>entry. PieceNum (snd entry)) (rangeShares v 1 originals))"
    by (simp add: makeCopies_def comp_def)
  also have "\<dots> = mset (map (\<lambda>entry. PieceNum (snd entry)) originals)"
    using assms(3) by (metis mset_map)
  also have "\<dots> = mset (map fst originals)"
    using assms(4) by (simp cong: map_cong)
  finally have m: "mset (map Number corrected) = mset (map fst originals)" .
  have "mset pieceNums \<subseteq># mset (map Number corrected)"
    unfolding p by (simp add: image_mset_subseteq_mono mset_filter multiset_filter_subset)
  then show ?thesis
    using m by simp
qed

lemma markNodes_eq: "markNodes ids m = (\<lambda>n. m n \<or> n \<in> set ids)"
  unfolding markNodes_def by (induction ids arbitrary: m) auto

lemma distinct_count_list: "distinct xs \<Longrightarrow> count_list xs n = (if n \<in> set xs then 1 else 0)"
  by (induction xs) auto

lemma count_list_mset: "mset xs = mset ys \<Longrightarrow> count_list xs n = count_list ys n"
  by (metis count_mset)


lemma mset_map_filter_perm:
  assumes "mset xs = mset ys"
  shows "mset (map f (filter P xs)) = image_mset f (filter_mset P (mset ys))"
  using assms by (metis mset_filter mset_map)

lemma lookupShare_entry:
  assumes "distinct (map fst shares)" and "entry \<in> set shares"
  shows "lookupShare shares (fst entry) = snd entry"
proof -
  have "map_of shares (fst entry) = Some (snd entry)"
    using assms by (metis map_of_is_SomeI prod.collapse)
  then show ?thesis
    by (simp add: lookupShare_def)
qed

lemma verdict_partition:
  "filter_mset (\<lambda>e. verdictOf (snd e) = Offline) M
     + filter_mset (\<lambda>e. verdictOf (snd e) = Unclassified) M
     + filter_mset (\<lambda>e. verdictOf (snd e) = Failed) M
     + filter_mset (\<lambda>e. verdictOf (snd e) = ToAudit \<and> fst e \<in> A) M
     + filter_mset (\<lambda>e. verdictOf (snd e) = Contained) M
     + filter_mset (\<lambda>e. verdictOf (snd e) = ToAudit \<and> fst e \<notin> A) M = M"
proof (rule multiset_eqI)
  fix e
  show "count (filter_mset (\<lambda>e. verdictOf (snd e) = Offline) M
     + filter_mset (\<lambda>e. verdictOf (snd e) = Unclassified) M
     + filter_mset (\<lambda>e. verdictOf (snd e) = Failed) M
     + filter_mset (\<lambda>e. verdictOf (snd e) = ToAudit \<and> fst e \<in> A) M
     + filter_mset (\<lambda>e. verdictOf (snd e) = Contained) M
     + filter_mset (\<lambda>e. verdictOf (snd e) = ToAudit \<and> fst e \<notin> A) M) e = count M e"
    by (cases "verdictOf (snd e)") auto
qed

lemma distinct_submset:
  assumes "mset xs \<subseteq># mset ys" and "distinct ys"
  shows "distinct xs"
proof -
  have "count (mset xs) a = (if a \<in> set xs then 1 else 0)" for a
  proof (cases "a \<in> set xs")
    case True
    have "count (mset xs) a \<le> count (mset ys) a"
      using assms(1) by (rule mset_subset_eq_count)
    moreover have "count (mset ys) a \<le> 1"
      using assms(2) [unfolded distinct_count_atmost_1] by simp
    moreover have "0 < count (mset xs) a"
      using True by (rule count_mset_gt_0)
    ultimately have "count (mset xs) a = 1"
      by linarith
    then show ?thesis
      using True by simp
  next
    case False
    then show ?thesis
      by simp
  qed
  then show ?thesis
    unfolding distinct_count_atmost_1 by blast
qed

lemma VerifyShares_accounts:
  assumes vs: "VerifyShares v path pointer randomIndex offl shares = Return (report, None)"
    and fair: "fair v" and ck: "correctKeepsNumbers v"
    and dk: "distinct (map fst shares)"
    and pk: "\<forall>entry\<in>set shares. PieceNum (snd entry) = fst entry"
    and inj: "inj_on (\<lambda>entry. NodeID (snd entry)) (set shares)"
    and disj: "set offl \<inter> (\<lambda>entry. NodeID (snd entry)) ` set shares = {}"
  shows "count_list (Successes report) n + count_list (Fails report) n + count_list (Offlines report) n
           + count_list (Unknown report) n + count_list (map PendingAudit_NodeID (PendingAudits report)) n
         = count_list offl n + (if n \<in> (\<lambda>entry. NodeID (snd entry)) ` set shares then 1 else 0)"
proof -
  let ?f = "\<lambda>entry. NodeID (snd entry)"
  let ?g = "\<lambda>pieceNum. NodeID (lookupShare shares pieceNum)"
  let ?st = "classifyShares v shares offl"
  let ?xs = "rangeShares v 0 shares"
  let ?M = "mset shares"
  from VerifyShares_success [OF vs] obtain remote pieceNums corrected pendings where
    rem: "Remote pointer = Some remote"
    and au: "auditShares v (GetMinReq (Redundancy remote)) (GetTotal (Redundancy remote))
           (sharesToAudit ?st) = Inr (pieceNums, corrected)"
    and cp: "createPendingAudits v (containedNodes ?st) corrected pointer randomIndex path
               = Return (Inr pendings)"
    and rep: "report =
             \<lparr>Successes = getSuccessNodes v shares (failedNodes ?st @ map ?g pieceNums)
                            (offlineNodes ?st) (unknownNodes ?st) (containedNodes ?st),
              Fails = failedNodes ?st @ map ?g pieceNums,
              Offlines = offlineNodes ?st,
              PendingAudits = pendings,
              Unknown = unknownNodes ?st\<rparr>"
    by (elim exE conjE) (rule that)
  have perm0: "mset ?xs = ?M" and perm1: "\<And>m. mset (rangeShares v 1 m) = mset m"
    and perm2: "mset (rangeShares v 2 shares) = ?M"
    and permc: "\<And>site m. mset (rangeContained v site m) = mset m"
    using fair by (simp_all add: fair_def)
  have set0: "set ?xs = set shares"
    using perm0 by (rule mset_eq_setD)
  have d0: "distinct (map fst ?xs)"
    using perm0 dk by (rule range_distinct_keys)
  note eq = classifyShares_eq [OF perm0 dk, of offl]
  let ?T = "sharesWith ToAudit ?xs"
  have T: "sharesToAudit ?st = ?T"
    by (simp add: eq)
  have Tsub: "set ?T \<subseteq> set shares"
    using set0 by (auto simp: sharesWith_def)
  have dT: "distinct (map fst ?T)"
    using d0 by (simp add: sharesWith_def distinct_map_filter)
  have "\<forall>entry\<in>set ?T. PieceNum (snd entry) = fst entry"
    using pk Tsub by blast
  from auditShares_pieceNums [OF au [unfolded T] ck perm1 this]
  have pn: "mset pieceNums \<subseteq># mset (map fst ?T)" .
  have dpn: "distinct pieceNums"
    using pn dT by (rule distinct_submset)
  have spn: "set pieceNums \<subseteq> fst ` set ?T"
    using set_mset_mono [OF pn] by simp
  \<comment> \<open>the nodes failed by the erasure check\<close>
  let ?B = "filter (\<lambda>e. fst e \<in> set pieceNums) ?T"
  have "distinct (map fst ?B)"
    using dT by (simp add: distinct_map_filter)
  moreover have "set (map fst ?B) = set pieceNums"
    using spn by force
  ultimately have keysB: "mset (map fst ?B) = mset pieceNums"
    using dpn by (metis set_eq_iff_mset_eq_distinct)
  have gB: "map ?g (map fst ?B) = map ?f ?B"
    unfolding map_map comp_def
  proof (rule map_cong [OF refl])
    fix e
    assume "e \<in> set ?B"
    then have "e \<in> set shares"
      using Tsub by auto
    from lookupShare_entry [OF dk this] show "NodeID (lookupShare shares (fst e)) = NodeID (snd e)"
      by simp
  qed
  have mB: "mset ?B = filter_mset (\<lambda>e. verdictOf (snd e) = ToAudit \<and> fst e \<in> set pieceNums) ?M"
    by (simp add: sharesWith_def filter_filter_mset perm0)
  have "mset (map ?g pieceNums) = image_mset ?g (mset (map fst ?B))"
    using keysB by simp
  also have "\<dots> = mset (map ?g (map fst ?B))"
    by (simp only: mset_map)
  also have "\<dots> = image_mset ?f (mset ?B)"
    unfolding gB by simp
  finally have part2: "mset (map ?g pieceNums) =
      image_mset ?f (filter_mset (\<lambda>e. verdictOf (snd e) = ToAudit \<and> fst e \<in> set pieceNums) ?M)"
    using mB by simp
  \<comment> \<open>the lists of the report as images of parts of the downloaded map\<close>
  have bucket: "mset (map ?f (sharesWith b ?xs)) = image_mset ?f (filter_mset (\<lambda>e. verdictOf (snd e) = b) ?M)" for b
    unfolding sharesWith_def using perm0 by (rule mset_map_filter_perm)
  have mOff: "mset (Offlines report) = mset offl + image_mset ?f (filter_mset (\<lambda>e. verdictOf (snd e) = Offline) ?M)"
    using bucket [of Offline] by (simp add: rep eq)
  have mUnk: "mset (Unknown report) = image_mset ?f (filter_mset (\<lambda>e. verdictOf (snd e) = Unclassified) ?M)"
    using bucket [of Unclassified] by (simp add: rep eq)
  have mFail: "mset (Fails report) = image_mset ?f (filter_mset (\<lambda>e. verdictOf (snd e) = Failed) ?M)
      + image_mset ?f (filter_mset (\<lambda>e. verdictOf (snd e) = ToAudit \<and> fst e \<in> set pieceNums) ?M)"
    using bucket [of Failed] part2 by (simp add: rep eq)
  have cont: "map snd (containedNodes ?st) = map ?f (sharesWith Contained ?xs)"
    by (simp add: eq comp_def)
  have mPend: "mset (map PendingAudit_NodeID (PendingAudits report)) =
      image_mset ?f (filter_mset (\<lambda>e. verdictOf (snd e) = Contained) ?M)"
    using createPendingAudits_nodes [OF cp permc] bucket [of Contained] by (simp add: rep cont)
  \<comment> \<open>the successes\<close>
  let ?fails = "markNodes (map snd (rangeContained v 0 (containedNodes ?st)))
                  (markNodes (unknownNodes ?st) (markNodes (offlineNodes ?st)
                     (markNodes (failedNodes ?st @ map ?g pieceNums) (\<lambda>_. False))))"
  have setc: "set (map snd (rangeContained v 0 (containedNodes ?st))) = set (map snd (containedNodes ?st))"
    using permc [of 0 "containedNodes ?st"] by (metis mset_eq_setD mset_map)
  have sets: "set (Fails report) = ?f ` {e \<in> set shares. verdictOf (snd e) = Failed}
                \<union> ?f ` {e \<in> set shares. verdictOf (snd e) = ToAudit \<and> fst e \<in> set pieceNums}"
    "set (Offlines report) = set offl \<union> ?f ` {e \<in> set shares. verdictOf (snd e) = Offline}"
    "set (Unknown report) = ?f ` {e \<in> set shares. verdictOf (snd e) = Unclassified}"
    "set (map snd (containedNodes ?st)) = ?f ` {e \<in> set shares. verdictOf (snd e) = Contained}"
  proof -
    have "set_mset (mset (Fails report)) = ?f ` {e \<in> set shares. verdictOf (snd e) = Failed}
                \<union> ?f ` {e \<in> set shares. verdictOf (snd e) = ToAudit \<and> fst e \<in> set pieceNums}"
      unfolding mFail by auto
    then show "set (Fails report) = ?f ` {e \<in> set shares. verdictOf (snd e) = Failed}
                \<union> ?f ` {e \<in> set shares. verdictOf (snd e) = ToAudit \<and> fst e \<in> set pieceNums}"
      by simp
    have "set_mset (mset (Offlines report)) = set offl \<union> ?f ` {e \<in> set shares. verdictOf (snd e) = Offline}"
      unfolding mOff by auto
    then show "set (Offlines report) = set offl \<union> ?f ` {e \<in> set shares. verdictOf (snd e) = Offline}"
      by simp
    have "set_mset (mset (Unknown report)) = ?f ` {e \<in> set shares. verdictOf (snd e) = Unclassified}"
      unfolding mUnk by auto
    then show "set (Unknown report) = ?f ` {e \<in> set shares. verdictOf (snd e) = Unclassified}"
      by simp
    show "set (map snd (containedNodes ?st)) = ?f ` {e \<in> set shares. verdictOf (snd e) = Contained}"
      unfolding cont using set0 by (auto simp: sharesWith_def)
  qed
  have failsEq: "?fails (?f e) \<longleftrightarrow> \<not> (verdictOf (snd e) = ToAudit \<and> fst e \<notin> set pieceNums)"
    if e: "e \<in> set shares" for e
  proof -
    have notoff: "?f e \<notin> set offl"
      using disj e by blast
    have transfer: "?f e \<in> ?f ` {e' \<in> set shares. P e'} \<longleftrightarrow> P e" for P
      using inj e by (auto dest: inj_onD)
    have "?fails (?f e) \<longleftrightarrow> ?f e \<in> set (Fails report) \<or> ?f e \<in> set (Offlines report)
            \<or> ?f e \<in> set (Unknown report) \<or> ?f e \<in> set (map snd (containedNodes ?st))"
      unfolding markNodes_eq setc by (auto simp: rep)
    also have "\<dots> \<longleftrightarrow> verdictOf (snd e) = Failed \<or> (verdictOf (snd e) = ToAudit \<and> fst e \<in> set pieceNums)
            \<or> verdictOf (snd e) = Offline \<or> verdictOf (snd e) = Unclassified \<or> verdictOf (snd e) = Contained"
      unfolding sets Un_iff transfer using notoff by blast
    also have "\<dots> \<longleftrightarrow> \<not> (verdictOf (snd e) = ToAudit \<and> fst e \<notin> set pieceNums)"
      by (cases "verdictOf (snd e)") auto
    finally show ?thesis .
  qed
  have "Successes report = map ?f (filter (\<lambda>entry. \<not> ?fails (?f entry)) (rangeShares v 2 shares))"
    by (simp add: rep getSuccessNodes_def)
  then have "mset (Successes report) = image_mset ?f (filter_mset (\<lambda>entry. \<not> ?fails (?f entry)) ?M)"
    using mset_map_filter_perm [OF perm2] by simp
  also have "filter_mset (\<lambda>entry. \<not> ?fails (?f entry)) ?M
               = filter_mset (\<lambda>e. verdictOf (snd e) = ToAudit \<and> fst e \<notin> set pieceNums) ?M"
    by (rule filter_mset_cong) (use failsEq in auto)
  finally have mSucc: "mset (Successes report) =
      image_mset ?f (filter_mset (\<lambda>e. verdictOf (snd e) = ToAudit \<and> fst e \<notin> set pieceNums) ?M)" .
  \<comment> \<open>together they are the downloaded map\<close>
  have "mset (Successes report) + mset (Fails report) + mset (Offlines report) + mset (Unknown report)
          + mset (map PendingAudit_NodeID (PendingAudits report))
        = mset offl + image_mset ?f
           (filter_mset (\<lambda>e. verdictOf (snd e) = Offline) ?M
            + filter_mset (\<lambda>e. verdictOf (snd e) = Unclassified) ?M
            + filter_mset (\<lambda>e. verdictOf (snd e) = Failed) ?M
            + filter_mset (\<lambda>e. verdictOf (snd e) = ToAudit \<and> fst e \<in> set pieceNums) ?M
            + filter_mset (\<lambda>e. verdictOf (snd e) = Contained) ?M
            + filter_mset (\<lambda>e. verdictOf (snd e) = ToAudit \<and> fst e \<notin> set pieceNums) ?M)"
    unfolding mSucc mFail mOff mUnk mPend by (simp add: ac_simps)
  also have "\<dots> = mset offl + mset (map ?f shares)"
    unfolding verdict_partition by simp
  finally have all: "mset (Successes report) + mset (Fails report) + mset (Offlines report)
          + mset (Unknown report) + mset (map PendingAudit_NodeID (PendingAudits report))
        = mset offl + mset (map ?f shares)" .
  have "distinct shares"
    using dk by (simp add: distinct_map)
  then have "distinct (map ?f shares)"
    using inj by (simp add: distinct_map)
  then have one: "count_list (map ?f shares) n = (if n \<in> ?f ` set shares then 1 else 0)"
    by (simp add: distinct_count_list)
  have lhs: "count (mset (Successes report) + mset (Fails report) + mset (Offlines report)
          + mset (Unknown report) + mset (map PendingAudit_NodeID (PendingAudits report))) n
        = count_list (Successes report) n + count_list (Fails report) n + count_list (Offlines report) n
           + count_list (Unknown report) n + count_list (map PendingAudit_NodeID (PendingAudits report)) n"
    by (simp only: count_union count_mset)
  have rhs: "count (mset offl + mset (map ?f shares)) n = count_list offl n + count_list (map ?f shares) n"
    by (simp only: count_union count_mset)
  have "count (mset (Successes report) + mset (Fails report) + mset (Offlines report)
          + mset (Unknown report) + mset (map PendingAudit_NodeID (PendingAudits report))) n
        = count (mset offl + mset (map ?f shares)) n"
    by (simp only: all)
  then show ?thesis
    unfolding lhs rhs one .
qed


text \<open>
  Claim C4, as the code has it. Let \<open>Verify\<close> return a nil error on the path through
  the audit: the shares were downloaded and the tamper check found the segment
  unaltered. Let the pieces have distinct nodes, the order service issue at most one
  limit per node and none to a skipped node, the environment be fair and the erasure
  correction keep the share numbers. Then in the report that the audit computes the
  node of every piece of the pointer appears exactly once in \<open>Successes\<close>, \<open>Fails\<close>,
  \<open>Offlines\<close>, \<open>Unknown\<close>, the nodes of \<open>PendingAudits\<close> and the skip set taken
  together. The report returned is the computed one after the deferred guard: when the
  pointer's piece hashes are unverified (and the verifier is not the one of the
  verify-piece-hashes command) a node that the audit failed or contained appears
  nowhere, and in every other case the node appears exactly once.
\<close>

theorem Verify_accounts_for_every_piece:
  assumes "reachesTamperCheck v pointerBytes pointer randomIndex limits shares"
    and "checkIfSegmentAltered v path (Some pointer) pointerBytes = None"
    and "Verify v path skip = Return (report, None)"
    and "fair v"
    and "correctKeepsNumbers v"
    and "limitsIssuedFor skip limits"
    and "distinct (map NodeId (GetRemotePieces (GetRemote pointer)))"
    and "piece \<in> set (GetRemotePieces (GetRemote pointer))"
  shows "\<exists>computed.
           VerifyShares v path pointer randomIndex (getOfflineNodes pointer limits skip) shares
             = Return (computed, None) \<and>
           report = VerifyDeferred v pointer computed \<and>
           appearances computed skip (NodeId piece) = 1 \<and>
           appearances report skip (NodeId piece) =
             (if \<not> UsedToVerifyPieceHashes v \<and> \<not> PieceHashesVerified pointer \<and>
                 (NodeId piece \<in> set (Fails computed) \<or>
                  NodeId piece \<in> PendingAudit_NodeID ` set (PendingAudits computed))
              then 0 else 1)"
proof -
  let ?f = "\<lambda>entry. NodeID (snd entry)"
  let ?offl = "getOfflineNodes pointer limits skip"
  let ?n = "NodeId piece"
  have dl: "distinct (limitNodes limits)" and ns: "\<forall>n\<in>set (limitNodes limits). \<not> skip n"
    using assms(6) by (simp_all add: limitsIssuedFor_def list_all_iff)
  have ds: "DownloadShares v limits randomIndex (GetErasureShareSize (GetRedundancy (GetRemote pointer)))
              = Return (shares, None)"
    using assms(1) by (simp add: reachesTamperCheck_def)
  have ch: "mset (channelOrder v [0..<length limits]) = mset [0..<length limits]"
    using assms(4) by (simp add: fair_def)
  note wf = DownloadShares_wellformed [OF ds ch dl]
  have pk: "\<forall>entry\<in>set shares. PieceNum (snd entry) = fst entry"
    using wf(2) unfolding fromLimits_def by (metis prod.collapse)
  have disj: "set ?offl \<inter> ?f ` set shares = {}"
    unfolding wf(3) getOfflineNodes_eq by auto
  from assms(3) obtain computed where
    vs: "VerifyShares v path pointer randomIndex ?offl shares = Return (computed, None)"
    and r: "report = VerifyDeferred v pointer computed"
    unfolding Verify_reaches [OF assms(1)] assms(2)
    by (auto split: outcome.splits)
  from VerifyShares_accounts [OF vs assms(4,5) wf(1) pk wf(4) disj, of ?n]
  have five: "count_list (Successes computed) ?n + count_list (Fails computed) ?n
           + count_list (Offlines computed) ?n + count_list (Unknown computed) ?n
           + count_list (map PendingAudit_NodeID (PendingAudits computed)) ?n
         = count_list ?offl ?n + (if ?n \<in> set (limitNodes limits) then 1 else 0)"
    unfolding wf(3) .
  have "distinct ?offl"
    unfolding getOfflineNodes_eq using assms(7) by (simp add: distinct_map_filter)
  then have co: "count_list ?offl ?n = (if ?n \<in> set ?offl then 1 else 0)"
    by (rule distinct_count_list)
  have mo: "?n \<in> set ?offl \<longleftrightarrow> ?n \<notin> set (limitNodes limits) \<and> \<not> skip ?n"
    unfolding getOfflineNodes_eq using assms(8) by auto
  have sk: "skip ?n \<Longrightarrow> ?n \<notin> set (limitNodes limits)"
    using ns by blast
  have one: "appearances computed skip ?n = 1"
    unfolding appearances_def five co mo using sk by auto
  have cf: "count_list (Fails computed) ?n = 0 \<longleftrightarrow> ?n \<notin> set (Fails computed)"
    and cp: "count_list (map PendingAudit_NodeID (PendingAudits computed)) ?n = 0
               \<longleftrightarrow> ?n \<notin> PendingAudit_NodeID ` set (PendingAudits computed)"
    by (simp_all add: count_list_0_iff)
  have rep: "appearances report skip ?n =
             (if \<not> UsedToVerifyPieceHashes v \<and> \<not> PieceHashesVerified pointer \<and>
                 (?n \<in> set (Fails computed) \<or> ?n \<in> PendingAudit_NodeID ` set (PendingAudits computed))
              then 0 else 1)"
  proof (cases "\<not> UsedToVerifyPieceHashes v \<and> \<not> PieceHashesVerified pointer")
    case False
    then have "report = computed"
      using r by (auto simp: VerifyDeferred_def)
    then show ?thesis
      using one False by auto
  next
    case True
    then have cleared: "report = computed\<lparr>PendingAudits := [], Fails := []\<rparr>"
      using r by (simp add: VerifyDeferred_def)
    have "appearances report skip ?n + count_list (Fails computed) ?n
            + count_list (map PendingAudit_NodeID (PendingAudits computed)) ?n = 1"
      using one unfolding cleared appearances_def by simp
    then show ?thesis
      using True cf cp by (cases "count_list (Fails computed) ?n = 0";
                           cases "count_list (map PendingAudit_NodeID (PendingAudits computed)) ?n = 0") auto
  qed
  show ?thesis
    using vs r one rep by blast
qed


lemma exVerifier_correctKeepsNumbers: "correctKeepsNumbers exVerifier"
proof -
  have keep: "map Number (map (\<lambda>s. s\<lparr>ShareData := exEncode exStripe (Number s)\<rparr>) copies) = map Number copies"
    for copies
    by (induction copies) simp_all
  show ?thesis
    by (auto simp: correctKeepsNumbers_def exVerifier_def exFEC_def keep simp del: mset_map map_map)
qed

lemma exLimits_issued: "limitsIssuedFor exSkip exLimits"
  by (simp add: limitsIssuedFor_def exLimits_def exLimit_def exSkip_def)

theorem Verify_accounts_for_every_piece_witness:
  "reachesTamperCheck (exVerifierGuarded 2) exPointerBytes (exPointerUnverified 2) 0 exLimits exShares \<and>
   checkIfSegmentAltered (exVerifierGuarded 2) ''seg'' (Some (exPointerUnverified 2)) exPointerBytes = None \<and>
   Verify (exVerifierGuarded 2) ''seg'' exSkip = Return (exReportGuarded, None) \<and>
   fair (exVerifierGuarded 2) \<and> correctKeepsNumbers (exVerifierGuarded 2) \<and>
   limitsIssuedFor exSkip exLimits \<and>
   distinct (map NodeId (GetRemotePieces (GetRemote (exPointerUnverified 2)))) \<and>
   \<lparr>RemotePiece_PieceNum = 3, NodeId = 13\<rparr> \<in> set (GetRemotePieces (GetRemote (exPointerUnverified 2))) \<and>
   \<lparr>RemotePiece_PieceNum = 0, NodeId = 10\<rparr> \<in> set (GetRemotePieces (GetRemote (exPointerUnverified 2))) \<and>
   VerifyShares (exVerifierGuarded 2) ''seg'' (exPointerUnverified 2) 0
     (getOfflineNodes (exPointerUnverified 2) exLimits exSkip) exShares = Return (exReportSkip, None) \<and>
   appearances exReportSkip exSkip 13 = 1 \<and>
   appearances exReportGuarded exSkip 13 = 0 \<and>
   appearances exReportGuarded exSkip 10 = 1"
proof -
  let ?v = "exVerifierGuarded 2"
  let ?p = "exPointerUnverified 2"
  have h1: "reachesTamperCheck ?v exPointerBytes ?p 0 exLimits exShares"
    unfolding reachesTamperCheck_def by (intro conjI; code_simp)
  have h2: "checkIfSegmentAltered ?v ''seg'' (Some ?p) exPointerBytes = None"
    by code_simp
  have h3: "Verify ?v ''seg'' exSkip = Return (exReportGuarded, None)"
    by code_simp
  have h4: "fair ?v"
    by (simp add: fair_def exVerifierGuarded_def exVerifierUnverified_def exVerifier_def)
  have h5: "correctKeepsNumbers ?v"
    using exVerifier_correctKeepsNumbers
    by (simp add: correctKeepsNumbers_def exVerifierGuarded_def exVerifierUnverified_def)
  have h6: "limitsIssuedFor exSkip exLimits"
    by (rule exLimits_issued)
  have h7: "distinct (map NodeId (GetRemotePieces (GetRemote ?p)))"
    by (simp add: GetRemotePieces_def GetRemote_def exPointerUnverified_def exPieces_def)
  have h8: "\<lparr>RemotePiece_PieceNum = 3, NodeId = 13\<rparr> \<in> set (GetRemotePieces (GetRemote ?p))"
    by (simp add: GetRemotePieces_def GetRemote_def exPointerUnverified_def exPieces_def)
  have h9: "\<lparr>RemotePiece_PieceNum = 0, NodeId = 10\<rparr> \<in> set (GetRemotePieces (GetRemote ?p))"
    by (simp add: GetRemotePieces_def GetRemote_def exPointerUnverified_def exPieces_def)
  have ev: "VerifyShares ?v ''seg'' ?p 0 (getOfflineNodes ?p exLimits exSkip) exShares
              = Return (exReportSkip, None)"
    by code_simp
  have guard: "\<not> UsedToVerifyPieceHashes ?v" "\<not> PieceHashesVerified ?p"
    by (simp_all add: exVerifierGuarded_def exPointerUnverified_def)
  have lists: "13 \<in> set (Fails exReportSkip)" "10 \<notin> set (Fails exReportSkip)"
    "10 \<notin> PendingAudit_NodeID ` set (PendingAudits exReportSkip)"
    by (simp_all add: exReportSkip_def exPending_def)
  from Verify_accounts_for_every_piece [OF h1 h2 h3 h4 h5 h6 h7 h8] ev
  have a13: "appearances exReportSkip exSkip 13 = 1 \<and> appearances exReportGuarded exSkip 13 = 0"
    using guard lists by auto
  from Verify_accounts_for_every_piece [OF h1 h2 h3 h4 h5 h6 h7 h9] ev
  have a10: "appearances exReportGuarded exSkip 10 = 1"
    using guard lists by auto
  show ?thesis
    using h1 h2 h3 h4 h5 h6 h7 h8 h9 ev a13 a10 by simp
qed

text \<open>
  The claim as written fails for an unverified segment under the ordinary audit loop:
  \<open>Verify\<close> returns a nil error, the nodes of the pieces are distinct, and node 13,
  whose piece was not found, is in none of the five lists nor in the skip set.
\<close>

theorem Verify_unverified_segment_loses_failed_node:
  "metainfo_GetWithBytes (exVerifierGuarded 2) = Inr (exPointerBytes, exPointerUnverified 2) \<and>
   Verify (exVerifierGuarded 2) ''seg'' exSkip =
     Return (\<lparr>Successes = [10, 11], Fails = [], Offlines = [16, 14], PendingAudits = [], Unknown = [15]\<rparr>,
             None) \<and>
   distinct (map NodeId (GetRemotePieces (GetRemote (exPointerUnverified 2)))) \<and>
   \<lparr>RemotePiece_PieceNum = 3, NodeId = 13\<rparr> \<in> set (GetRemotePieces (GetRemote (exPointerUnverified 2))) \<and>
   appearances \<lparr>Successes = [10, 11], Fails = [], Offlines = [16, 14], PendingAudits = [], Unknown = [15]\<rparr>
     exSkip 13 = 0"
  by (intro conjI; code_simp)

section \<open>What Verify reports for each downloaded share\<close>







section \<open>VerifyPieceHashes and the store\<close>

lemma VerifyDeletes_expired:
  assumes "VerifyDeletes v path \<noteq> []"
  shows "\<exists>pointerBytes pointer.
           metainfo_GetWithBytes v = Inr (pointerBytes, pointer) \<and> expired v pointer \<and>
           VerifyDeletes v path = [(path, pointerBytes)] \<and>
           Verify v path skip = Return (emptyReport, map_option AuditErr (metainfo_Delete v))"
proof -
  from assms obtain pointerBytes pointer where
    m: "metainfo_GetWithBytes v = Inr (pointerBytes, pointer)" and e: "expired v pointer"
    by (auto simp: VerifyDeletes_def expired_def split: sum.splits if_splits)
  have "VerifyDeletes v path = [(path, pointerBytes)]"
    using m e by (simp add: VerifyDeletes_def expired_def)
  then show ?thesis
    using m e Verify_expired [OF m e] by blast
qed

text \<open>
  Claim C9, as the code has it. In a pass of the loop that has read an unverified remote
  pointer and whose audit returned a report without error, if the report has no success,
  or fewer successes than \<open>MinReq\<close>, or fewer than \<open>RepairThreshold\<close>, then the pass
  ends the function with \<open>(false, nil)\<close> and makes no call of the conditional update:
  the calls made so far are returned as they were. When the report has a success, the
  pass has changed nothing in the store. When it has none, the pointer is unchanged
  unless the audit itself found the pointer expired and deleted it (line 104) before
  returning the empty report: the case that the comment ``this could happen if there was
  deleted or expired'' names.
\<close>

theorem VerifyPieceHashes_no_update_without_enough_successes:
  assumes "attempts < maxAttempts"
    and "attempt_GetWithBytes (attempt pv n) = Inr (pointerBytes, pointer)"
    and "\<not> PieceHashesVerified pointer"
    and "Type pointer = REMOTE"
    and "attemptVerify pv path n = Return (report, None)"
    and "length (Successes report) = 0 \<or>
         (\<exists>remote redundancy. Remote pointer = Some remote \<and> Redundancy remote = Some redundancy \<and>
            (int (length (Successes report)) < MinReq redundancy \<or>
             int (length (Successes report)) < RepairThreshold redundancy))"
  shows "verifyPieceHashesBody pv path dryRun n = Return (Done False None, []) \<and>
         VerifyPieceHashesLoop pv path dryRun attempts n calls = Return ((False, None), calls) \<and>
         (0 < length (Successes report) \<longrightarrow> attemptDeletes pv path n = []) \<and>
         (attemptDeletes pv path n \<noteq> [] \<longrightarrow>
            report = emptyReport \<and>
            (\<exists>auditBytes auditPointer.
               metainfo_GetWithBytes (attempt_Verifier (attempt pv n)) = Inr (auditBytes, auditPointer) \<and>
               expired (attempt_Verifier (attempt pv n)) auditPointer \<and>
               metainfo_Delete (attempt_Verifier (attempt pv n)) = None \<and>
               attemptDeletes pv path n = [(path, auditBytes)]))"
proof -
  have body: "verifyPieceHashesBody pv path dryRun n = Return (Done False None, [])"
    using assms(2-6) by (auto simp: verifyPieceHashesBody_def)
  have loop: "VerifyPieceHashesLoop pv path dryRun attempts n calls = Return ((False, None), calls)"
    using assms(1) body by (subst VerifyPieceHashesLoop.simps) simp
  have del: "report = emptyReport \<and>
            (\<exists>auditBytes auditPointer.
               metainfo_GetWithBytes (attempt_Verifier (attempt pv n)) = Inr (auditBytes, auditPointer) \<and>
               expired (attempt_Verifier (attempt pv n)) auditPointer \<and>
               metainfo_Delete (attempt_Verifier (attempt pv n)) = None \<and>
               attemptDeletes pv path n = [(path, auditBytes)])"
    if d: "attemptDeletes pv path n \<noteq> []"
  proof -
    let ?v = "attempt_Verifier (attempt pv n)"
    have mock: "OnTestingVerifyMockFunc pv = None"
      using d by (auto simp: attemptDeletes_def split: option.splits)
    then have ad: "attemptDeletes pv path n = VerifyDeletes ?v path"
      and av: "Verify ?v path (\<lambda>_. False) = Return (report, None)"
      using assms(5) by (simp_all add: attemptDeletes_def attemptVerify_def)
    from VerifyDeletes_expired [OF d [unfolded ad], of "\<lambda>_. False"]
    obtain auditBytes auditPointer where
      m: "metainfo_GetWithBytes ?v = Inr (auditBytes, auditPointer)" and e: "expired ?v auditPointer"
      and vd: "VerifyDeletes ?v path = [(path, auditBytes)]"
      and vr: "Verify ?v path (\<lambda>_. False) = Return (emptyReport, map_option AuditErr (metainfo_Delete ?v))"
      by blast
    have "report = emptyReport" and "metainfo_Delete ?v = None"
      using av vr by simp_all
    then show ?thesis
      using m e vd ad by simp
  qed
  have pos: "0 < length (Successes report) \<longrightarrow> attemptDeletes pv path n = []"
  proof (intro impI, rule ccontr)
    assume p: "0 < length (Successes report)" and "attemptDeletes pv path n \<noteq> []"
    then have "report = emptyReport"
      using del by blast
    then show False
      using p by (simp add: emptyReport_def)
  qed
  show ?thesis
    using body loop pos del by blast
qed

theorem VerifyPieceHashes_no_update_without_enough_successes_witness:
  "(0::int) < maxAttempts \<and>
   attempt_GetWithBytes (attempt (exPieceHashes 3 (\<lambda>n. None)) 0) = Inr (exPointerBytes, exPointerUnverified 3) \<and>
   \<not> PieceHashesVerified (exPointerUnverified 3) \<and>
   Type (exPointerUnverified 3) = REMOTE \<and>
   attemptVerify (exPieceHashes 3 (\<lambda>n. None)) ''seg'' 0 = Return (exReport, None) \<and>
   int (length (Successes exReport)) < 3 \<and> 0 < length (Successes exReport) \<and>
   VerifyPieceHashesLoop (exPieceHashes 3 (\<lambda>n. None)) ''seg'' False 0 0 [] = Return ((False, None), []) \<and>
   attemptDeletes (exPieceHashes 3 (\<lambda>n. None)) ''seg'' 0 = []"
proof -
  have h1: "(0::int) < maxAttempts"
    by (simp add: maxAttempts_def)
  have h2: "attempt_GetWithBytes (attempt (exPieceHashes 3 (\<lambda>n. None)) 0)
              = Inr (exPointerBytes, exPointerUnverified 3)"
    by (simp add: exPieceHashes_def)
  have h3: "\<not> PieceHashesVerified (exPointerUnverified 3)"
    by (simp add: exPointerUnverified_def)
  have h4: "Type (exPointerUnverified 3) = REMOTE"
    by (simp add: exPointerUnverified_def exPointer_def)
  have h5: "attemptVerify (exPieceHashes 3 (\<lambda>n. None)) ''seg'' 0 = Return (exReport, None)"
    by code_simp
  have few: "int (length (Successes exReport)) < 3" and some: "0 < length (Successes exReport)"
    by (simp_all add: exReport_def)
  have h6: "length (Successes exReport) = 0 \<or>
         (\<exists>remote redundancy. Remote (exPointerUnverified 3) = Some remote \<and>
            Redundancy remote = Some redundancy \<and>
            (int (length (Successes exReport)) < MinReq redundancy \<or>
             int (length (Successes exReport)) < RepairThreshold redundancy))"
    using few by (simp add: exPointerUnverified_def exRedundancy_def)
  show ?thesis
    using h1 h2 h3 h4 h5 few some
      VerifyPieceHashes_no_update_without_enough_successes [OF h1 h2 h3 h4 h5 h6, of False "[]"]
    by simp
qed

text \<open>
  The claim as written fails for an expired segment: the pass reads the unverified remote
  pointer, the audit finds it expired, deletes it and returns the empty report without
  error; \<open>VerifyPieceHashes\<close> returns \<open>(false, nil)\<close> without an update call, and the
  pointer is gone from the store.
\<close>

theorem VerifyPieceHashes_expired_pointer_is_deleted:
  "attempt_GetWithBytes (attempt exPieceHashesExpired 0) = Inr (exPointerBytes, exPointerExpired) \<and>
   \<not> PieceHashesVerified exPointerExpired \<and>
   Type exPointerExpired = REMOTE \<and>
   attemptVerify exPieceHashesExpired ''seg'' 0 = Return (emptyReport, None) \<and>
   length (Successes emptyReport) = 0 \<and>
   VerifyPieceHashes exPieceHashesExpired ''seg'' False = Return ((False, None), []) \<and>
   metainfo_Delete (attempt_Verifier (attempt exPieceHashesExpired 0)) = None \<and>
   attemptDeletes exPieceHashesExpired ''seg'' 0 = [(''seg'', exPointerBytes)]"
  by (intro conjI; code_simp)

end
